(* ===== verification/Prelude.thy ===== *)
theory Prelude
  imports Main "HOL-Library.Word"
begin

text \<open>
  Shared vocabulary of the development: the C++ errors that the modelled code can raise or run
  into, the result type, iteration with early exit, and the invariant locale that the state
  machines (table monitor, P2P handler, chain handler, contract node) all use.

  A value of type \<open>'a res\<close> is \<open>Inr v\<close> for a normal return and \<open>Inl e\<close> for a C++ exception \<open>e\<close>.
  Three constructors stand for the outcomes that are no exceptions: \<open>UB\<close> marks a step whose
  behaviour the C++ standard leaves undefined, \<open>AssertAbort\<close> a failed \<open>assert\<close>, \<open>Terminate\<close> a
  call of \<open>std::terminate\<close> (an exception leaving a destructor).
\<close>

named_theorems cpp_simps \<open>equations that evaluate the model on constructor arguments\<close>
named_theorems inv_intros \<open>preservation lemmas of the component invariants\<close>

datatype cpp_error =
    OutOfRange int nat
  | BadCast
  | RangeError int
  | FcAssert string
  | FcException string
  | UnreachableFork
  | BlockOlderThanUndoHistory
  | FcExceptionPtr string
  | BoostException string
  | SystemError string
  | UserException string
  | AssertAbort
  | Terminate string
  | UB string

type_synonym 'a res = "cpp_error + 'a"
type_synonym size_t = "64 word"
type_synonym u8 = "8 word"
type_synonym u32 = "32 word"
type_synonym u64 = "64 word"
type_synonym i64 = "64 word"

text \<open>Which exceptions a handler \<open>catch (const fc::exception&)\<close> accepts: the exceptions of the
  FC library and those that the P2P network library derives from them.\<close>

fun is_fc_exception :: "cpp_error \<Rightarrow> bool" where
  "is_fc_exception (FcAssert _) = True"
| "is_fc_exception (FcException _) = True"
| "is_fc_exception UnreachableFork = True"
| "is_fc_exception BlockOlderThanUndoHistory = True"
| "is_fc_exception _ = False"

text \<open>A handler \<open>catch (const boost::exception&)\<close>: Boost throws its own errors, system errors of
  Boost.DLL included, through \<open>boost::throw_exception\<close>, which derives them from it.\<close>

fun is_boost_exception :: "cpp_error \<Rightarrow> bool" where
  "is_boost_exception (BoostException _) = True"
| "is_boost_exception (SystemError _) = True"
| "is_boost_exception _ = False"

fun is_system_error :: "cpp_error \<Rightarrow> bool" where
  "is_system_error (SystemError _) = True"
| "is_system_error _ = False"

fun is_fc_exception_ptr :: "cpp_error \<Rightarrow> bool" where
  "is_fc_exception_ptr (FcExceptionPtr _) = True"
| "is_fc_exception_ptr _ = False"

section \<open>Results\<close>

definition rbind :: "'a res \<Rightarrow> ('a \<Rightarrow> 'b res) \<Rightarrow> 'b res" where
  "rbind r f = (case r of Inl e \<Rightarrow> Inl e | Inr x \<Rightarrow> f x)"

lemma rbind_simps [simp, cpp_simps]:
  "rbind (Inl e) f = Inl e" "rbind (Inr x) f = f x"
  by (simp_all add: rbind_def)

lemma rbind_eq_Inr: "rbind r f = Inr y \<longleftrightarrow> (\<exists>x. r = Inr x \<and> f x = Inr y)"
  by (cases r) auto

lemma rbind_assoc: "rbind (rbind r f) g = rbind r (\<lambda>x. rbind (f x) g)"
  by (cases r) auto

text \<open>A range-based \<open>for\<close> whose body threads a state and may throw: the first throw ends it.\<close>

fun for_each :: "('e \<Rightarrow> 's \<Rightarrow> 's res) \<Rightarrow> 'e list \<Rightarrow> 's \<Rightarrow> 's res" where
  "for_each f [] s = Inr s"
| "for_each f (x # xs) s = rbind (f x s) (for_each f xs)"

lemma for_each_append: "for_each f (xs @ ys) s = rbind (for_each f xs s) (for_each f ys)"
proof (induction xs arbitrary: s)
  case (Cons x xs)
  then show ?case by (cases "f x s") auto
qed simp

lemma for_each_pure: "for_each (\<lambda>x s. Inr (g x s)) xs s = Inr (fold g xs s)"
  by (induction xs arbitrary: s) auto

text \<open>The same loop when the state survives a throw, as output already written does.\<close>

fun for_each_st :: "('e \<Rightarrow> 's \<Rightarrow> 's \<times> unit res) \<Rightarrow> 'e list \<Rightarrow> 's \<Rightarrow> 's \<times> unit res" where
  "for_each_st f [] s = (s, Inr ())"
| "for_each_st f (x # xs) s =
     (case f x s of (s', Inl e) \<Rightarrow> (s', Inl e) | (s', Inr _) \<Rightarrow> for_each_st f xs s')"

lemma for_each_st_step:
  "f x s = (s', Inr ()) \<Longrightarrow> for_each_st f (x # xs) s = for_each_st f xs s'"
  by simp

text \<open>What every pass of the body keeps, the loop keeps, thrown out of or not.\<close>

lemma for_each_st_keeps:
  "(\<And>x s. x \<in> set xs \<Longrightarrow> I s \<Longrightarrow> I (fst (f x s))) \<Longrightarrow> I s \<Longrightarrow> I (fst (for_each_st f xs s))"
proof (induction xs arbitrary: s)
  case (Cons x xs)
  obtain s' r where f: "f x s = (s', r)" by fastforce
  have "I s'" using Cons.prems(1) [of x s] Cons.prems(2) f by simp
  with Cons f show ?case by (cases r) auto
qed simp

section \<open>Option helpers\<close>

lemma bind_eq_Some_iff: "Option.bind x f = Some y \<longleftrightarrow> (\<exists>z. x = Some z \<and> f z = Some y)"
  by (cases x) auto

section \<open>Machine integers\<close>

lemma unat_minus_one_pos: "w \<noteq> 0 \<Longrightarrow> unat (w - 1) = unat w - 1" for w :: "'a::len word"
  by (simp add: unat_minus_one)

lemma unat_of_nat_u32: "n < 2 ^ 32 \<Longrightarrow> unat (of_nat n :: u32) = n"
  by (simp add: unat_of_nat)

lemma unat_max_word: "unat (- 1 :: size_t) = 2 ^ 64 - 1"
  by (simp add: unat_eq_nat_uint uint_word_ariths)

lemma uint_eq_sint: "0 \<le> sint w \<Longrightarrow> uint w = sint w" for w :: "64 word"
  using sint_lt [of w] by (simp add: uint_sint take_bit_int_eq_self)

lemma unat_plus_one_less:
  fixes w :: "'a::len word"
  assumes "w < v"
  shows "unat (w + 1) = unat w + 1"
proof -
  have "unat w < unat v" using assms by (simp add: word_less_nat_alt)
  also have "unat v < 2 ^ LENGTH('a)" by simp
  finally have "unat w + 1 < 2 ^ LENGTH('a) \<or> unat w + 1 = unat v" 
    using \<open>unat w < unat v\<close> \<open>unat v < 2 ^ LENGTH('a)\<close> by linarith
  then have "unat w + 1 < 2 ^ LENGTH('a)" using \<open>unat v < 2 ^ LENGTH('a)\<close> by auto
  then show ?thesis by (simp add: unat_word_ariths)
qed

section \<open>Invariants of state machines\<close>

text \<open>
  A deterministic component is a step function on its state. A predicate that every step keeps
  holds after every run. The components interpret this locale on their own steps.
\<close>

locale kept_invariant =
  fixes step :: "'e \<Rightarrow> 's \<Rightarrow> 's" and I :: "'s \<Rightarrow> bool"
  assumes step_keeps: "I s \<Longrightarrow> I (step e s)"
begin

lemma run_keeps: "I s \<Longrightarrow> I (fold step es s)"
  by (induction es arbitrary: s) (auto intro: step_keeps)

lemma run_prefix_keeps: "I s \<Longrightarrow> I (fold step (take n es) s)"
  by (rule run_keeps)

end

end
