(* ===== verification/Type_List.thy ===== *)
theory Type_List
  imports Prelude
begin

text \<open>
  \<open>Infra/TypeList.hpp\<close>: the operations on compile-time lists of types. A \<open>List<Ts...>\<close> is a HOL
  list of its arguments; a metafunction is a function on lists, by the recursion of its partial
  specialisations. An instantiation that no specialisation matches does not compile: its value is
  \<open>None\<close>. Indexes are \<open>std::size_t\<close>, a \<open>64 word\<close>, because several recursions subtract from them
  and unsigned subtraction wraps; \<open>indexOf\<close> is an \<open>int\<close> (a list of \<open>2^31\<close> types exceeds every
  compiler's template limits, so the increment of that \<open>int\<close> does not overflow).
\<close>

section \<open>Length, concatenation and sequences\<close>

fun tl_length :: "'a list \<Rightarrow> size_t" where
  "tl_length [] = 0"
| "tl_length (t # ts) = tl_length ts + 1"

fun tl_concat :: "'a list list \<Rightarrow> 'a list option" where
  "tl_concat [] = None"
| "tl_concat [xs] = None"
| "tl_concat [xs, ys] = Some (xs @ ys)"
| "tl_concat (xs # ys # zs # Ls) = tl_concat ((xs @ ys) # zs # Ls)"

definition tl_append :: "'a list \<Rightarrow> 'a \<Rightarrow> 'a list option" where
  "tl_append L T = tl_concat [L, [T]]"

definition tl_prepend :: "'a list \<Rightarrow> 'a \<Rightarrow> 'a list option" where
  "tl_prepend L T = tl_concat [[T], L]"

fun makeSequence :: "nat \<Rightarrow> nat list option" where
  "makeSequence 0 = Some []"
| "makeSequence (Suc 0) = Some [0]"
| "makeSequence (Suc (Suc n)) =
     Option.bind (makeSequence (Suc n)) (\<lambda>s. tl_concat [s, [Suc n]])"

section \<open>Element access and search\<close>

fun tl_at :: "'a list \<Rightarrow> size_t \<Rightarrow> 'a option" where
  "tl_at [] i = None"
| "tl_at (t # ts) i = (if i = 0 then Some t else tl_at ts (i - 1))"

definition tl_first :: "'a list \<Rightarrow> 'a option" where
  "tl_first L = tl_at L 0"

definition tl_last :: "'a list \<Rightarrow> 'a option" where
  "tl_last L = tl_at L (tl_length L - 1)"

fun indexOf :: "'a list \<Rightarrow> 'a \<Rightarrow> int" where
  "indexOf [] s = -1"
| "indexOf (t # ts) s =
     (let deeper = indexOf ts s
      in if s = t then 0 else if deeper = -1 then -1 else deeper + 1)"

definition tl_contains :: "'a list \<Rightarrow> 'a \<Rightarrow> bool" where
  "tl_contains L T \<longleftrightarrow> indexOf L T \<noteq> -1"

section \<open>Removal, filtering, slicing\<close>

fun removeAt_impl :: "'a list \<Rightarrow> 'a list \<Rightarrow> size_t \<Rightarrow> 'a list option" where
  "removeAt_impl left [] i = None"
| "removeAt_impl left (t # right) i =
     (if i = 0 then Some (left @ right) else removeAt_impl (left @ [t]) right (i - 1))"

definition tl_removeAt :: "'a list \<Rightarrow> size_t \<Rightarrow> 'a list option" where
  "tl_removeAt L i = removeAt_impl [] L i"

text \<open>The index of \<open>removeAt\<close> is a \<open>std::size_t\<close> template argument: converting the constant \<open>-1\<close> to
  it is a narrowing conversion, which does not compile.\<close>

definition size_t_constant :: "int \<Rightarrow> size_t option" where
  "size_t_constant i = (if i < 0 then None else Some (word_of_int i))"

definition removeElement :: "'a list \<Rightarrow> 'a \<Rightarrow> 'a list option" where
  "removeElement L R = Option.bind (size_t_constant (indexOf L R)) (tl_removeAt L)"

fun filter_impl :: "('a \<Rightarrow> bool) \<Rightarrow> 'a list \<Rightarrow> 'a list \<Rightarrow> 'a list" where
  "filter_impl F Filtered [] = Filtered"
| "filter_impl F Filtered (t # ts) =
     (if F t then filter_impl F (Filtered @ [t]) ts else filter_impl F Filtered ts)"

definition tl_filter :: "'a list \<Rightarrow> ('a \<Rightarrow> bool) \<Rightarrow> 'a list" where
  "tl_filter L F = filter_impl F [] L"

definition InvertFilter :: "('a \<Rightarrow> bool) \<Rightarrow> 'a \<Rightarrow> bool" where
  "InvertFilter F t \<longleftrightarrow> \<not> F t"

fun slice_impl :: "'a list \<Rightarrow> 'a list \<Rightarrow> size_t \<Rightarrow> size_t \<Rightarrow> 'a list option" where
  "slice_impl results [] start stop = (if start = stop then Some results else None)"
| "slice_impl results (t # ts) start stop =
     (if start = stop then Some results
      else if start = 0 then slice_impl (results @ [t]) ts 0 (stop - 1)
      else if results = [] then slice_impl [] ts (start - 1) (stop - 1)
      else None)"

definition tl_slice :: "'a list \<Rightarrow> size_t \<Rightarrow> size_t \<Rightarrow> 'a list option" where
  "tl_slice L start stop = slice_impl [] L start stop"

definition tl_slice_from :: "'a list \<Rightarrow> size_t \<Rightarrow> 'a list option" where
  "tl_slice_from L start = tl_slice L start (tl_length L)"

section \<open>Uniqueness\<close>

function concatUnique_impl :: "'a list \<Rightarrow> 'a list list \<Rightarrow> 'a list option" where
  "concatUnique_impl U [] = None"
| "concatUnique_impl U [[]] = Some U"
| "concatUnique_impl U [[t]] = Some (if indexOf U t \<ge> 0 then U else U @ [t])"
| "concatUnique_impl U [t1 # t2 # ts] =
     (case concatUnique_impl U [[t1]] of
        None \<Rightarrow> None
      | Some V \<Rightarrow> concatUnique_impl V [t2 # ts])"
| "concatUnique_impl U ([] # L2 # Ls) = concatUnique_impl U (L2 # Ls)"
| "concatUnique_impl U ((a # as) # L2 # Ls) =
     (case concatUnique_impl U [a # as] of
        None \<Rightarrow> None
      | Some V \<Rightarrow> concatUnique_impl V (L2 # Ls))"
  by pat_completeness auto
termination
  by (relation "measure (\<lambda>(U, Ls). sum_list (map length Ls) + length Ls)") auto

definition concatUnique :: "'a list list \<Rightarrow> 'a list option" where
  "concatUnique Ls = concatUnique_impl [] Ls"

section \<open>Transformation, reduction, zipping\<close>

text \<open>A \<open>Transformer\<close> or an \<open>Accumulator\<close> may itself be ill-formed at an argument, so it returns an
  option; the whole list is then ill-formed.\<close>

fun tl_transform :: "'a list \<Rightarrow> ('a \<Rightarrow> 'b option) \<Rightarrow> 'b list option" where
  "tl_transform [] f = Some []"
| "tl_transform (t # ts) f =
     Option.bind (f t) (\<lambda>u. Option.bind (tl_transform ts f) (\<lambda>us. Some (u # us)))"

fun tl_reduce :: "'v list \<Rightarrow> ('v \<Rightarrow> 'r \<Rightarrow> 'r option) \<Rightarrow> 'r \<Rightarrow> 'r option" where
  "tl_reduce [] Acc I = Some I"
| "tl_reduce (t # ts) Acc I = Option.bind (Acc t I) (tl_reduce ts Acc)"

fun tl_zip :: "'a list \<Rightarrow> 'b list \<Rightarrow> ('a \<times> 'b) list option" where
  "tl_zip [] [] = Some []"
| "tl_zip (a # as) (b # bs) = Option.bind (tl_zip as bs) (\<lambda>r. tl_concat [[(a, b)], r])"
| "tl_zip _ _ = None"

definition tl_index :: "'a list \<Rightarrow> (nat \<times> 'a) list option" where
  "tl_index L = Option.bind (makeSequence (unat (tl_length L))) (\<lambda>s. tl_zip s L)"

text \<open>A list applied as the arguments of another template.\<close>

definition tl_apply :: "'a list \<Rightarrow> ('a list \<Rightarrow> 'b) \<Rightarrow> 'b" where
  "tl_apply L Delegate = Delegate L"

section \<open>Run-time dispatch\<close>

text \<open>The overload on \<open>uint64_t\<close> calls the entry of the call table or throws; the overload on
  \<open>int64_t\<close> rejects negative indexes first.\<close>

definition dispatch_helper :: "('a \<Rightarrow> 'r res) \<Rightarrow> 'a \<Rightarrow> 'r res" where
  "dispatch_helper c T = c T"

text \<open>\<open>enable_if\<close> removes the overload on \<open>uint64_t\<close> for an empty list, and then the other one, which
  calls it, does not compile either. The functions below are only used on lists with a type.\<close>

definition Dispatch_compiles :: "'a list \<Rightarrow> bool" where
  "Dispatch_compiles Types \<longleftrightarrow> tl_length Types \<noteq> 0"

definition Dispatch_u64 :: "'a list \<Rightarrow> u64 \<Rightarrow> ('a \<Rightarrow> 'r res) \<Rightarrow> 'r res" where
  "Dispatch_u64 Types index c =
     (if index < tl_length Types then dispatch_helper c (Types ! unat index)
      else Inl (OutOfRange (uint index) (unat (tl_length Types))))"

definition Dispatch_i64 :: "'a list \<Rightarrow> i64 \<Rightarrow> ('a \<Rightarrow> 'r res) \<Rightarrow> 'r res" where
  "Dispatch_i64 l index c =
     (if sint index \<ge> 0 then Dispatch_u64 l index c
      else Inl (OutOfRange (sint index) (unat (tl_length l))))"

text \<open>\<open>ForEach\<close> expands the pack into the initializer of an array without a bound. For no types that is an
  array of no elements, which standard C++ does not have, so the call does not compile (\<open>None\<close>).\<close>

definition ForEach_compiles :: "'a list \<Rightarrow> bool" where
  "ForEach_compiles Types \<longleftrightarrow> Types \<noteq> []"

definition ForEach :: "'a list \<Rightarrow> ('a \<Rightarrow> 's \<Rightarrow> 's res) \<Rightarrow> 's \<Rightarrow> 's res option" where
  "ForEach Types c s = (if ForEach_compiles Types then Some (for_each c Types s) else None)"

section \<open>What the operations compute\<close>

lemma tl_length_eq [simp]: "tl_length L = of_nat (length L)"
  by (induction L) (auto simp: add.commute)

lemma unat_tl_length: "length L < 2 ^ 64 \<Longrightarrow> unat (of_nat (length L) :: size_t) = length L"
  by (simp add: unat_of_nat)

lemma tl_concat_eq: "tl_concat Ls = (if 2 \<le> length Ls then Some (concat Ls) else None)"
  by (induction Ls rule: tl_concat.induct) auto

lemma tl_append_eq [simp]: "tl_append L T = Some (L @ [T])"
  by (simp add: tl_append_def)

lemma tl_prepend_eq [simp]: "tl_prepend L T = Some (T # L)"
  by (simp add: tl_prepend_def)

lemma makeSequence_eq [simp]: "makeSequence n = Some [0..<n]"
  by (induction n rule: makeSequence.induct) auto

lemma tl_at_eq: "tl_at L i = (if unat i < length L then Some (L ! unat i) else None)"
proof (induction L arbitrary: i)
  case (Cons t ts)
  show ?case
  proof (cases "i = 0")
    case False
    then have "unat i = Suc (unat (i - 1))"
      by (simp add: unat_minus_one_pos unat_gt_0)
    with False Cons show ?thesis by simp
  qed simp
qed simp

lemma tl_first_eq: "tl_first L = (case L of [] \<Rightarrow> None | t # _ \<Rightarrow> Some t)"
  by (cases L) (auto simp: tl_first_def)

lemma tl_last_eq: "L \<noteq> [] \<Longrightarrow> length L < 2 ^ 64 \<Longrightarrow> tl_last L = Some (last L)"
  by (simp add: tl_last_def tl_at_eq unat_minus_one_pos unat_tl_length last_conv_nth
      unat_eq_zero[symmetric] del: unat_eq_zero flip: unat_eq_zero)

lemma tl_last_empty [simp]: "tl_last [] = None"
  by (simp add: tl_last_def)

lemma indexOf_eq:
  "indexOf L t = (if t \<in> set L then int (length (takeWhile (\<lambda>x. x \<noteq> t) L)) else -1)"
  by (induction L) (auto simp: Let_def)

lemma indexOf_ge_0 [simp]: "0 \<le> indexOf L t \<longleftrightarrow> t \<in> set L"
  by (simp add: indexOf_eq)

lemma indexOf_neg [simp]: "indexOf L t = -1 \<longleftrightarrow> t \<notin> set L"
  by (simp add: indexOf_eq)

lemma tl_contains_eq [simp]: "tl_contains L t \<longleftrightarrow> t \<in> set L"
  by (simp add: tl_contains_def)

lemma indexOf_nth: "t \<in> set L \<Longrightarrow> nat (indexOf L t) < length L \<and> L ! nat (indexOf L t) = t"
  by (induction L) (auto simp: Let_def nth_Cons nat_add_distrib split: nat.split)

lemma indexOf_distinct:
  "distinct L \<Longrightarrow> i < length L \<Longrightarrow> indexOf L (L ! i) = int i"
  by (metis indexOf_ge_0 indexOf_nth int_nat_eq nth_eq_iff_index_eq nth_mem)

lemma removeAt_impl_eq:
  "removeAt_impl left L i =
     (if unat i < length L then Some (left @ take (unat i) L @ drop (Suc (unat i)) L) else None)"
proof (induction L arbitrary: left i)
  case (Cons t ts)
  show ?case
  proof (cases "i = 0")
    case False
    then have "unat i = Suc (unat (i - 1))"
      by (simp add: unat_minus_one_pos unat_gt_0)
    with False Cons show ?thesis by simp
  qed simp
qed simp

lemma filter_impl_eq: "filter_impl F acc L = acc @ filter F L"
  by (induction L arbitrary: acc) auto

lemma tl_filter_eq [simp]: "tl_filter L F = filter F L"
  by (simp add: tl_filter_def filter_impl_eq)

lemma tl_zip_eq: "tl_zip as bs = (if length as = length bs then Some (zip as bs) else None)"
  by (induction as bs rule: tl_zip.induct) auto

lemma tl_transform_eq: 
  "tl_transform L f = (if \<forall>t \<in> set L. f t \<noteq> None then Some (map (\<lambda>t. the (f t)) L) else None)"
  by (induction L) auto

lemma tl_reduce_pure: "tl_reduce L (\<lambda>t r. Some (g t r)) I = Some (fold g L I)"
  by (induction L arbitrary: I) auto

lemma tl_reduce_append:
  "tl_reduce (xs @ ys) Acc I = Option.bind (tl_reduce xs Acc I) (tl_reduce ys Acc)"
proof (induction xs arbitrary: I)
  case (Cons x xs)
  then show ?case by (cases "Acc x I") auto
qed simp

text \<open>The unique list that keeps first occurrences: one insertion per type, left to right.\<close>

definition insert_last :: "'a \<Rightarrow> 'a list \<Rightarrow> 'a list" where
  "insert_last t U = (if t \<in> set U then U else U @ [t])"

lemma concatUnique_impl_eq:
  "concatUnique_impl U Ls = (if Ls = [] then None else Some (fold insert_last (concat Ls) U))"
  by (induction U Ls rule: concatUnique_impl.induct) (auto simp: insert_last_def)

lemma fold_insert_last: "fold insert_last xs U = U @ rev (remdups (rev (filter (\<lambda>x. x \<notin> set U) xs)))"
proof (induction xs rule: rev_induct)
  case (snoc x xs)
  then show ?case by (auto simp: insert_last_def)
qed simp

section \<open>The tag table\<close>

text \<open>
  What a client that stores a type as its position needs of \<open>indexOf\<close> and \<open>at\<close>: positions and
  members determine each other. \<open>StaticVariant\<close> relies on exactly this.
\<close>

locale tag_table =
  fixes tag_of :: "'a list \<Rightarrow> 'a \<Rightarrow> int"
    and type_at :: "'a list \<Rightarrow> size_t \<Rightarrow> 'a option"
  assumes tag_absent: "tag_of L t = -1 \<longleftrightarrow> t \<notin> set L"
    and tag_present: "t \<in> set L \<Longrightarrow> 0 \<le> tag_of L t \<and> tag_of L t < int (length L)"
    and type_at_tag: "t \<in> set L \<Longrightarrow> length L < 2 ^ 63 \<Longrightarrow>
           type_at L (word_of_int (tag_of L t)) = Some t"
begin

lemma tag_inj:
  "s \<in> set L \<Longrightarrow> t \<in> set L \<Longrightarrow> length L < 2 ^ 63 \<Longrightarrow> tag_of L s = tag_of L t \<Longrightarrow> s = t"
  by (metis option.inject type_at_tag)

lemma tag_eq_iff:
  "length L < 2 ^ 63 \<Longrightarrow> t \<in> set L \<Longrightarrow> tag_of L s = tag_of L t \<longleftrightarrow> s = t"
  by (metis tag_absent tag_inj)

end

lemma indexOf_bound: "t \<in> set L \<Longrightarrow> 0 \<le> indexOf L t \<and> indexOf L t < int (length L)"
  using indexOf_nth [of t L] by (simp add: nat_less_iff)

lemma unat_indexOf:
  "t \<in> set L \<Longrightarrow> length L < 2 ^ 63 \<Longrightarrow> unat (word_of_int (indexOf L t) :: size_t) = nat (indexOf L t)"
  using indexOf_bound [of t L] by (simp add: unat_eq_nat_uint uint_word_of_int_eq take_bit_int_eq_self)

interpretation type_index: tag_table indexOf tl_at
proof unfold_locales
  show "indexOf L t = -1 \<longleftrightarrow> t \<notin> set L" for L :: "'a list" and t by simp
  show "t \<in> set L \<Longrightarrow> 0 \<le> indexOf L t \<and> indexOf L t < int (length L)" for L :: "'a list" and t
    by (rule indexOf_bound)
  show "t \<in> set L \<Longrightarrow> length L < 2 ^ 63 \<Longrightarrow> tl_at L (word_of_int (indexOf L t)) = Some t"
    for L :: "'a list" and t
    using indexOf_nth [of t L] by (simp add: tl_at_eq unat_indexOf)
qed

section \<open>Properties\<close>

lemma slice_impl_from_zero:
  "slice_impl results ts 0 stop =
     (if unat stop \<le> length ts then Some (results @ take (unat stop) ts) else None)"
proof (induction ts arbitrary: results stop)
  case Nil
  then show ?case by (auto simp: unat_eq_zero)
next
  case (Cons t ts)
  show ?case
  proof (cases "stop = 0")
    case False
    then have "unat stop = Suc (unat (stop - 1))"
      by (simp add: unat_minus_one_pos unat_gt_0)
    with False Cons show ?thesis by simp
  qed simp
qed

text \<open>
  For a list of fewer than \<open>2^64\<close> types, \<open>slice<L, start, end>\<close> is the sublist at indexes
  \<open>[start, end)\<close> when the range lies in the list; an empty range gives the empty list wherever it
  lies; every other range, a reversed one included, does not compile (the end index wraps below
  zero instead of stopping there).
\<close>

lemma tl_slice_spec:
  assumes "length L < 2 ^ 64"
  shows "tl_slice L start stop =
    (if start = stop then Some []
     else if unat start < unat stop \<and> unat stop \<le> length L
     then Some (take (unat stop - unat start) (drop (unat start) L))
     else None)"
proof -
  have "length ts < 2 ^ 64 \<Longrightarrow> slice_impl [] ts start stop =
    (if start = stop then Some []
     else if unat start < unat stop \<and> unat stop \<le> length ts
     then Some (take (unat stop - unat start) (drop (unat start) ts)) else None)" for ts :: "'a list"
  proof (induction ts arbitrary: start stop)
    case Nil
    then show ?case by auto
  next
    case (Cons t ts)
    show ?case
    proof (cases "start = 0 \<or> start = stop")
      case True
      then show ?thesis
        using slice_impl_from_zero [of "[]" "t # ts" stop] by (auto simp: unat_gt_0)
    next
      case False
      then have start: "unat start = Suc (unat (start - 1))"
        by (simp add: unat_minus_one_pos unat_gt_0)
      show ?thesis
      proof (cases "stop = 0")
        case True
        then have "length ts < unat (stop - 1)" using Cons.prems by (simp add: unat_max_word)
        with False True Cons show ?thesis by simp
      next
        case stop: False
        then have "unat stop = Suc (unat (stop - 1))"
          by (simp add: unat_minus_one_pos unat_gt_0)
        with False start Cons show ?thesis by simp
      qed
    qed
  qed
  then show ?thesis using assms by (simp add: tl_slice_def)
qed

text \<open>
  \<open>concatUnique\<close> of one or more lists keeps exactly the first occurrence of every type of the
  concatenation, in order; with no list at all it does not compile.
\<close>

lemma concatUnique_spec:
  "concatUnique Ls =
     (if Ls = [] then None else Some (rev (remdups (rev (concat Ls)))))"
  by (simp add: concatUnique_def concatUnique_impl_eq fold_insert_last)

text \<open>\<open>removeElement<L, T>\<close> removes the first occurrence of a type that is in the list and keeps
  the others in order; for a type that is not in the list it does not compile.\<close>

lemma removeElement_spec:
  assumes "length L < 2 ^ 63"
  shows "removeElement L t = (if t \<in> set L then Some (remove1 t L) else None)"
proof (cases "t \<in> set L")
  case True
  define n where "n = nat (indexOf L t)"
  have n: "n < length L" "unat (word_of_int (indexOf L t) :: size_t) = n"
    using True assms indexOf_nth [of t L] by (simp_all add: n_def unat_indexOf)
  have "take n L @ drop (Suc n) L = remove1 t L"
    using True unfolding n_def
    by (induction L) (auto simp: Let_def nat_add_distrib)
  with True n show ?thesis
    by (simp add: removeElement_def size_t_constant_def tl_removeAt_def removeAt_impl_eq indexOf_bound
        not_less)
qed (simp add: removeElement_def size_t_constant_def indexOf_eq)

lemma Dispatch_i64_eq:
  assumes "length Types < 2 ^ 63"
  shows "Dispatch_i64 Types index c =
    (if 0 \<le> sint index \<and> sint index < int (length Types) then c (Types ! nat (sint index))
     else Inl (OutOfRange (sint index) (length Types)))"
proof (cases "0 \<le> sint index")
  case True
  then have "uint index = sint index"
    by (rule uint_eq_sint)
  then have idx: "unat index = nat (sint index)"
    by (simp add: unat_eq_nat_uint)
  have len: "unat (of_nat (length Types) :: u64) = length Types"
    using assms by (simp add: unat_of_nat)
  from idx len have "index < of_nat (length Types) \<longleftrightarrow> sint index < int (length Types)"
    using True by (simp only: word_less_nat_alt zless_nat_eq_int_zless) auto
  then show ?thesis
    using True idx len \<open>uint index = sint index\<close>
    by (simp only: Dispatch_i64_def Dispatch_u64_def dispatch_helper_def tl_length_eq) simp
next
  case False
  then show ?thesis using assms by (simp add: Dispatch_i64_def unat_of_nat)
qed

section \<open>Building lists step by step\<close>

text \<open>The template \<open>builder\<close> over the list built so far: its members \<open>add\<close>, \<open>addList\<close> and
  \<open>finalize\<close>.\<close>

definition builder_add :: "'a list \<Rightarrow> 'a \<Rightarrow> 'a list option" where
  "builder_add L NewType = tl_concat [L, [NewType]]"

definition builder_addList :: "'a list \<Rightarrow> 'a list \<Rightarrow> 'a list option" where
  "builder_addList L NewList = tl_concat [L, NewList]"

definition builder_finalize :: "'a list \<Rightarrow> 'a list" where
  "builder_finalize L = L"

lemma builder_steps: "tl_reduce NewList (\<lambda>T L. builder_add L T) L = builder_addList L NewList"
  by (induction NewList arbitrary: L) (simp_all add: builder_add_def builder_addList_def)

end
