(* ===== verification/Static_Variant.thy ===== *)
theory Static_Variant
  imports Type_List
begin

text \<open>
  \<open>Infra/StaticVariant.hpp\<close>: a variant over a list of types. Its state is the tag, an \<open>int64_t\<close>, and
  the object that lives in its byte storage: none, or one of some type. Reading or destroying storage
  as a type whose object does not live there is undefined behaviour. The member types' own operations,
  which may throw, are the record \<open>value_ops\<close>; types are elements of \<open>'t\<close> and values of all of them of
  \<open>'v\<close>. The four overloads of \<open>visit\<close> differ only in constness and have one definition.
\<close>

section \<open>State\<close>

record ('t, 'v) value_ops =
  default_construct :: "'t \<Rightarrow> 'v res"
  copy_construct :: "'t \<Rightarrow> 'v \<Rightarrow> 'v res"
  move_construct :: "'t \<Rightarrow> 'v \<Rightarrow> ('v \<times> 'v) res"
  value_equal :: "'t \<Rightarrow> 'v \<Rightarrow> 'v \<Rightarrow> bool"
  value_less :: "'t \<Rightarrow> 'v \<Rightarrow> 'v \<Rightarrow> bool"
  size_of :: "'t \<Rightarrow> size_t"

record ('t, 'v) static_variant =
  tag :: i64
  storage :: "('t \<times> 'v) option"

fun MaxSize :: "size_t list \<Rightarrow> size_t" where
  "MaxSize [] = 0"
| "MaxSize [s] = s"
| "MaxSize (s # t # ts) = max s (MaxSize (t # ts))"

text \<open>The two static assertions of the class.\<close>

definition static_variant_types :: "('t \<Rightarrow> bool) \<Rightarrow> 't list \<Rightarrow> bool" where
  "static_variant_types is_reference Types \<longleftrightarrow>
     tl_length (tl_filter Types is_reference) = 0 \<and>
     (case concatUnique [Types] of None \<Rightarrow> False | Some U \<Rightarrow> tl_length U = tl_length Types)"

definition TagOf :: "'t list \<Rightarrow> 't \<Rightarrow> i64" where
  "TagOf Types X = word_of_int (indexOf Types X)"

definition sv_count :: "'t list \<Rightarrow> size_t" where
  "sv_count Types = tl_length Types"

definition which :: "('t, 'v) static_variant \<Rightarrow> i64" where
  "which sv = tag sv"

definition isType :: "'t list \<Rightarrow> 't \<Rightarrow> ('t, 'v) static_variant \<Rightarrow> bool" where
  "isType Types X sv \<longleftrightarrow> tag sv = TagOf Types X"

text \<open>The test that guards a tag: negative, or past the last type as a \<open>size_t\<close>.\<close>

definition bad_tag :: "'t list \<Rightarrow> i64 \<Rightarrow> bool" where
  "bad_tag Types t \<longleftrightarrow> sint t < 0 \<or> sv_count Types \<le> t"

text \<open>A dispatch whose callable changes a state that survives the exceptions it throws.\<close>

definition dispatch_on :: "'t list \<Rightarrow> i64 \<Rightarrow> ('t \<Rightarrow> 's \<times> 'r res) \<Rightarrow> 's \<Rightarrow> 's \<times> 'r res" where
  "dispatch_on Types t f s =
     (case Dispatch_i64 Types t (\<lambda>X. Inr (f X)) of Inl e \<Rightarrow> (s, Inl e) | Inr r \<Rightarrow> r)"

section \<open>Construction and destruction\<close>

definition init_copy ::
  "('t, 'v) value_ops \<Rightarrow> 't list \<Rightarrow> 't \<Rightarrow> 'v \<Rightarrow> ('t, 'v) static_variant \<Rightarrow> ('t, 'v) static_variant \<times> unit res" where
  "init_copy V Types X x sv =
     (let sv1 = sv\<lparr>tag := TagOf Types X\<rparr>
      in case copy_construct V X x of
           Inl e \<Rightarrow> (sv1, Inl e)
         | Inr v \<Rightarrow> (sv1\<lparr>storage := Some (X, v)\<rparr>, Inr ()))"

text \<open>Moving into place gives back what is left of the source.\<close>

definition init_move ::
  "('t, 'v) value_ops \<Rightarrow> 't list \<Rightarrow> 't \<Rightarrow> 'v \<Rightarrow> ('t, 'v) static_variant \<Rightarrow> ('t, 'v) static_variant \<times> 'v res" where
  "init_move V Types X x sv =
     (let sv1 = sv\<lparr>tag := TagOf Types X\<rparr>
      in case move_construct V X x of
           Inl e \<Rightarrow> (sv1, Inl e)
         | Inr (v, rest) \<Rightarrow> (sv1\<lparr>storage := Some (X, v)\<rparr>, Inr rest))"

definition initFromTag ::
  "('t, 'v) value_ops \<Rightarrow> 't list \<Rightarrow> i64 \<Rightarrow> ('t, 'v) static_variant \<Rightarrow> ('t, 'v) static_variant \<times> unit res" where
  "initFromTag V Types t sv =
     (if bad_tag Types t then (sv, Inl BadCast)
      else
        (let sv1 = sv\<lparr>tag := t\<rparr>
         in dispatch_on Types t (\<lambda>X. case default_construct V X of
                Inl e \<Rightarrow> (sv1, Inl e)
              | Inr v \<Rightarrow> (sv1\<lparr>storage := Some (X, v)\<rparr>, Inr ())) sv1))"

definition clean :: "'t list \<Rightarrow> ('t, 'v) static_variant \<Rightarrow> ('t, 'v) static_variant \<times> unit res" where
  "clean Types sv =
     dispatch_on Types (tag sv) (\<lambda>X. case storage sv of
         None \<Rightarrow> (sv, Inl (UB ''destructor of an object that does not live''))
       | Some (Y, _) \<Rightarrow> if X = Y then (sv\<lparr>storage := None\<rparr>, Inr ())
                        else (sv, Inl (UB ''destructor of another type''))) sv"

definition get_as :: "'t list \<Rightarrow> 't \<Rightarrow> ('t, 'v) static_variant \<Rightarrow> 'v res" where
  "get_as Types X sv =
     (if tag sv = TagOf Types X then
        (case storage sv of
           None \<Rightarrow> Inl (UB ''read of an object that does not live'')
         | Some (Y, v) \<Rightarrow> if X = Y then Inr v else Inl (UB ''read as another type''))
      else Inl BadCast)"

text \<open>Writing through the reference that the non-const \<open>get\<close> returns.\<close>

definition put_as :: "'t \<Rightarrow> 'v \<Rightarrow> ('t, 'v) static_variant \<Rightarrow> ('t, 'v) static_variant" where
  "put_as X v sv = sv\<lparr>storage := Some (X, v)\<rparr>"

text \<open>A constructor returns an object or throws. The storage of a new one holds nothing; its tag is
  indeterminate until it is set.\<close>

definition raw :: "i64 \<Rightarrow> ('t, 'v) static_variant" where
  "raw t = \<lparr>tag = t, storage = None\<rparr>"

definition constructed :: "('t, 'v) static_variant \<times> 'r res \<Rightarrow> ('t, 'v) static_variant res" where
  "constructed r = rbind (snd r) (\<lambda>_. Inr (fst r))"

definition sv_default :: "('t, 'v) value_ops \<Rightarrow> 't list \<Rightarrow> i64 \<Rightarrow> ('t, 'v) static_variant res" where
  "sv_default V Types junk = constructed (initFromTag V Types 0 (raw junk))"

definition sv_of :: "('t, 'v) value_ops \<Rightarrow> 't list \<Rightarrow> i64 \<Rightarrow> 't \<Rightarrow> 'v \<Rightarrow> ('t, 'v) static_variant res" where
  "sv_of V Types junk X x = constructed (init_copy V Types X x (raw junk))"

text \<open>Copying the value of a variant over the types \<open>Other\<close> into a variant over \<open>Types\<close>: with
  \<open>Other = Types\<close> it is the copy constructor.\<close>

definition copy_into ::
  "('t, 'v) value_ops \<Rightarrow> 't list \<Rightarrow> 't list \<Rightarrow> ('t, 'v) static_variant \<Rightarrow> ('t, 'v) static_variant \<Rightarrow>
   ('t, 'v) static_variant \<times> unit res" where
  "copy_into V Types Other cpy sv =
     dispatch_on Other (which cpy) (\<lambda>X. case get_as Other X cpy of
         Inl e \<Rightarrow> (sv, Inl e)
       | Inr x \<Rightarrow> init_copy V Types X x sv) sv"

definition sv_copy ::
  "('t, 'v) value_ops \<Rightarrow> 't list \<Rightarrow> 't list \<Rightarrow> i64 \<Rightarrow> ('t, 'v) static_variant \<Rightarrow> ('t, 'v) static_variant res" where
  "sv_copy V Types Other junk cpy = constructed (copy_into V Types Other cpy (raw junk))"

text \<open>Moving: the pair of the target and the source.\<close>

definition move_into ::
  "('t, 'v) value_ops \<Rightarrow> 't list \<Rightarrow> 't list \<Rightarrow> ('t, 'v) static_variant \<Rightarrow> ('t, 'v) static_variant \<Rightarrow>
   (('t, 'v) static_variant \<times> ('t, 'v) static_variant) \<times> unit res" where
  "move_into V Types Other mv sv =
     dispatch_on Other (which mv) (\<lambda>X. case get_as Other X mv of
         Inl e \<Rightarrow> ((sv, mv), Inl e)
       | Inr x \<Rightarrow> (case init_move V Types X x sv of
             (sv', Inl e) \<Rightarrow> ((sv', mv), Inl e)
           | (sv', Inr rest) \<Rightarrow> ((sv', put_as X rest mv), Inr ()))) (sv, mv)"

section \<open>Assignment, comparison, visiting\<close>

text \<open>Copy assignment; \<open>same\<close> is \<open>this == &v\<close>.\<close>

definition assign_copy ::
  "('t, 'v) value_ops \<Rightarrow> 't list \<Rightarrow> bool \<Rightarrow> ('t, 'v) static_variant \<Rightarrow> ('t, 'v) static_variant \<Rightarrow>
   ('t, 'v) static_variant \<times> unit res" where
  "assign_copy V Types same v sv =
     (if same then (sv, Inr ())
      else case clean Types sv of
             (sv1, Inl e) \<Rightarrow> (sv1, Inl e)
           | (sv1, Inr _) \<Rightarrow> copy_into V Types Types v sv1)"

definition assign_value ::
  "('t, 'v) value_ops \<Rightarrow> 't list \<Rightarrow> 't \<Rightarrow> 'v \<Rightarrow> ('t, 'v) static_variant \<Rightarrow> ('t, 'v) static_variant \<times> unit res" where
  "assign_value V Types X x sv =
     (case clean Types sv of
        (sv1, Inl e) \<Rightarrow> (sv1, Inl e)
      | (sv1, Inr _) \<Rightarrow> init_copy V Types X x sv1)"

definition assign_move ::
  "('t, 'v) value_ops \<Rightarrow> 't list \<Rightarrow> bool \<Rightarrow> ('t, 'v) static_variant \<Rightarrow> ('t, 'v) static_variant \<Rightarrow>
   (('t, 'v) static_variant \<times> ('t, 'v) static_variant) \<times> unit res" where
  "assign_move V Types same v sv =
     (if same then ((sv, v), Inr ())
      else case clean Types sv of
             (sv1, Inl e) \<Rightarrow> ((sv1, v), Inl e)
           | (sv1, Inr _) \<Rightarrow> move_into V Types Types v sv1)"

definition sv_equal ::
  "('t, 'v) value_ops \<Rightarrow> 't list \<Rightarrow> ('t, 'v) static_variant \<Rightarrow> ('t, 'v) static_variant \<Rightarrow> bool res" where
  "sv_equal V Types a b =
     (if which a \<noteq> which b then Inr False
      else Dispatch_i64 Types (which a) (\<lambda>X.
             rbind (get_as Types X a) (\<lambda>x. rbind (get_as Types X b) (\<lambda>y. Inr (value_equal V X x y)))))"

definition sv_not_equal ::
  "('t, 'v) value_ops \<Rightarrow> 't list \<Rightarrow> ('t, 'v) static_variant \<Rightarrow> ('t, 'v) static_variant \<Rightarrow> bool res" where
  "sv_not_equal V Types a b = rbind (sv_equal V Types a b) (\<lambda>eq. Inr (\<not> eq))"

definition sv_less ::
  "('t, 'v) value_ops \<Rightarrow> 't list \<Rightarrow> ('t, 'v) static_variant \<Rightarrow> ('t, 'v) static_variant \<Rightarrow> bool res" where
  "sv_less V Types a b =
     (if sint (which a) < sint (which b) then Inr True
      else if sint (which a) > sint (which b) then Inr False
      else Dispatch_i64 Types (which a) (\<lambda>X.
             rbind (get_as Types X a) (\<lambda>x. rbind (get_as Types X b) (\<lambda>y. Inr (value_less V X x y)))))"

definition type_lt :: "('t, 'v) static_variant \<Rightarrow> ('t, 'v) static_variant \<Rightarrow> bool" where
  "type_lt a b \<longleftrightarrow> sint (which a) < sint (which b)"

definition type_eq :: "('t, 'v) static_variant \<Rightarrow> ('t, 'v) static_variant \<Rightarrow> bool" where
  "type_eq a b \<longleftrightarrow> which a = which b"

text \<open>A visitor sees the object as the type of the tag.\<close>

definition visit :: "'t list \<Rightarrow> ('t \<Rightarrow> 'v \<Rightarrow> 'r res) \<Rightarrow> ('t, 'v) static_variant \<Rightarrow> 'r res" where
  "visit Types visitor sv =
     (if bad_tag Types (tag sv) then Inl (RangeError (sint (tag sv)))
      else Dispatch_i64 Types (tag sv) (\<lambda>X. case storage sv of
             None \<Rightarrow> Inl (UB ''visit of an object that does not live'')
           | Some (Y, v) \<Rightarrow> if X = Y then visitor X v else Inl (UB ''visit as another type'')))"

definition set_which ::
  "('t, 'v) value_ops \<Rightarrow> 't list \<Rightarrow> i64 \<Rightarrow> ('t, 'v) static_variant \<Rightarrow> ('t, 'v) static_variant \<times> unit res" where
  "set_which V Types t sv =
     (if bad_tag Types t then (sv, Inl (RangeError (sint t)))
      else case clean Types sv of
             (sv1, Inl e) \<Rightarrow> (sv1, Inl e)
           | (sv1, Inr _) \<Rightarrow> initFromTag V Types t sv1)"

text \<open>\<open>ImportFrom\<close>: a type of the other variant that this one lacks is refused at run time.\<close>

definition ImportHelper ::
  "('t, 'v) value_ops \<Rightarrow> 't list \<Rightarrow> i64 \<Rightarrow> 't \<Rightarrow> 'v \<Rightarrow> ('t, 'v) static_variant res" where
  "ImportHelper V Types junk X x = (if indexOf Types X \<noteq> -1 then sv_of V Types junk X x else Inl BadCast)"

definition ImportFrom ::
  "('t, 'v) value_ops \<Rightarrow> 't list \<Rightarrow> 't list \<Rightarrow> i64 \<Rightarrow> ('t, 'v) static_variant \<Rightarrow> ('t, 'v) static_variant res" where
  "ImportFrom V Types Other junk other =
     Dispatch_i64 Other (which other) (\<lambda>X.
       rbind (get_as Other X other) (\<lambda>x. ImportHelper V Types junk X x))"

section \<open>Tags and types\<close>

lemma sint_TagOf:
  assumes "X \<in> set L" "length L < 2 ^ 63"
  shows "sint (TagOf L X) = indexOf L X"
proof -
  have "0 \<le> indexOf L X \<and> indexOf L X < int (length L)" by (rule type_index.tag_present [OF assms(1)])
  moreover have "int (length L) < 2 ^ 63" using assms(2) by (metis of_nat_less_iff of_nat_numeral of_nat_power)
  ultimately have "- (2 ^ 63) \<le> indexOf L X \<and> indexOf L X < 2 ^ 63" by linarith
  then show ?thesis by (simp add: TagOf_def int_word_sint)
qed

lemma TagOf_eq_iff:
  assumes "X \<in> set L" "Y \<in> set L" "length L < 2 ^ 63"
  shows "TagOf L X = TagOf L Y \<longleftrightarrow> X = Y"
  using type_index.tag_inj [OF assms(1,2,3)] sint_TagOf [OF assms(1,3)] sint_TagOf [OF assms(2,3)] by metis

lemma Dispatch_TagOf:
  assumes "X \<in> set L" "length L < 2 ^ 63"
  shows "Dispatch_i64 L (TagOf L X) c = c X"
  using indexOf_nth [OF assms(1)] type_index.tag_present [OF assms(1)] sint_TagOf [OF assms]
  by (simp add: Dispatch_i64_eq [OF assms(2)])

lemma dispatch_on_TagOf:
  "X \<in> set L \<Longrightarrow> length L < 2 ^ 63 \<Longrightarrow> dispatch_on L (TagOf L X) f s = f X"
  by (simp add: dispatch_on_def Dispatch_TagOf)

lemma bad_tag_iff:
  assumes "length L < 2 ^ 63"
  shows "bad_tag L t \<longleftrightarrow> sint t < 0 \<or> int (length L) \<le> sint t"
proof (cases "sint t < 0")
  case False
  then have "uint t = sint t" by (intro uint_eq_sint) simp
  moreover have "uint (of_nat (length L) :: size_t) = int (length L)"
    using assms by (simp add: uint_nat unat_of_nat)
  ultimately show ?thesis by (simp add: bad_tag_def sv_count_def word_le_def)
qed (simp add: bad_tag_def)

lemma not_bad_TagOf: "X \<in> set L \<Longrightarrow> length L < 2 ^ 63 \<Longrightarrow> \<not> bad_tag L (TagOf L X)"
  using type_index.tag_present [of X L] by (simp add: bad_tag_iff sint_TagOf not_less)

lemma good_tag:
  assumes "\<not> bad_tag L t" "length L < 2 ^ 63" "distinct L"
  shows "nat (sint t) < length L \<and> t = TagOf L (L ! nat (sint t))"
proof -
  have t: "0 \<le> sint t" "sint t < int (length L)" using assms(1,2) by (auto simp: bad_tag_iff)
  then have "nat (sint t) < length L" by linarith
  moreover from this have "indexOf L (L ! nat (sint t)) = sint t"
    using t(1) by (simp add: indexOf_distinct [OF assms(3)])
  ultimately show ?thesis by (simp add: TagOf_def)
qed

lemma static_variant_types_eq:
  assumes "length L < 2 ^ 63"
  shows "static_variant_types is_reference L \<longleftrightarrow> distinct L \<and> list_all (\<lambda>X. \<not> is_reference X) L"
proof -
  have "length (remdups (rev L)) \<le> length L" using length_remdups_leq [of "rev L"] by simp
  then have U: "(of_nat (length (remdups (rev L))) :: size_t) = of_nat (length L) \<longleftrightarrow>
      length (remdups (rev L)) = length L"
    using assms by (simp add: word_unat_eq_iff unat_of_nat)
  have R: "(of_nat (length (filter is_reference L)) :: size_t) = 0 \<longleftrightarrow> filter is_reference L = []"
  proof -
    have "length (filter is_reference L) mod 2 ^ 64 = length (filter is_reference L)"
      by (rule mod_less, rule le_less_trans [OF length_filter_le]) (use assms in simp)
    then show ?thesis by (simp add: word_unat_eq_iff unat_of_nat)
  qed
  have "length (remdups (rev L)) = length (rev L) \<longleftrightarrow> distinct (rev L)"
    using length_remdups_eq [of "rev L"] by (metis distinct_remdups remdups_id_iff_distinct)
  with U R show ?thesis
    by (simp add: static_variant_types_def concatUnique_def concatUnique_impl_eq fold_insert_last
        filter_empty_conv list_all_iff conj_commute)
qed

lemma static_variant_types_distinct:
  "static_variant_types is_reference L \<Longrightarrow> length L < 2 ^ 63 \<Longrightarrow>
   distinct L \<and> list_all (\<lambda>X. \<not> is_reference X) L"
  by (simp add: static_variant_types_eq)

section \<open>Valid variants\<close>

text \<open>A valid variant holds a live object of the type that its tag names.\<close>

definition holds :: "'t list \<Rightarrow> 't \<Rightarrow> 'v \<Rightarrow> ('t, 'v) static_variant \<Rightarrow> bool" where
  "holds L X v sv \<longleftrightarrow> X \<in> set L \<and> sv = \<lparr>tag = TagOf L X, storage = Some (X, v)\<rparr>"

lemma holds_reads:
  assumes "holds L X v sv" "length L < 2 ^ 63"
  shows "get_as L X sv = Inr v" "Y \<in> set L \<Longrightarrow> Y \<noteq> X \<Longrightarrow> get_as L Y sv = Inl BadCast"
    "visit L f sv = f X v" "isType L X sv"
    "clean L sv = (sv\<lparr>storage := None\<rparr>, Inr ())"
    "dispatch_on L (which sv) g s = g X" "Dispatch_i64 L (which sv) h = h X"
  using assms TagOf_eq_iff [of X L Y]
  by (auto simp: holds_def get_as_def visit_def isType_def clean_def which_def dispatch_on_TagOf
      Dispatch_TagOf not_bad_TagOf)

lemma init_copy_holds:
  "X \<in> set L \<Longrightarrow> copy_construct V X x = Inr v \<Longrightarrow>
   \<exists>sv'. init_copy V L X x sv = (sv', Inr ()) \<and> holds L X v sv'"
  by (cases sv) (simp add: init_copy_def holds_def)

text \<open>
  C29. What goes in comes out: a variant constructed from a value of one of its types holds the copied
  value, gives it back for that type and to a visitor, refuses every other of its types with
  \<open>std::bad_cast\<close>, and can be destroyed.
\<close>

theorem sv_of_roundtrip:
  assumes "X \<in> set L" and "length L < 2 ^ 63" and "copy_construct V X x = Inr v"
  shows "\<exists>sv. sv_of V L junk X x = Inr sv \<and> isType L X sv \<and> get_as L X sv = Inr v \<and>
    visit L f sv = f X v \<and> list_all (\<lambda>Y. Y \<noteq> X \<longrightarrow> get_as L Y sv = Inl BadCast) L \<and>
    clean L sv = (raw (which sv), Inr ())"
proof -
  obtain sv where sv: "init_copy V L X x (raw junk) = (sv, Inr ())" "holds L X v sv"
    using init_copy_holds [OF assms(1,3)] by blast
  then have "raw (which sv) = sv\<lparr>storage := None\<rparr>" by (simp add: holds_def raw_def which_def)
  with sv holds_reads [OF sv(2) assms(2)] show ?thesis
    by (auto simp: sv_of_def constructed_def list_all_iff)
qed

definition sample_values :: "(string, nat) value_ops" where
  "sample_values = \<lparr>default_construct = (\<lambda>X. Inr 0),
     copy_construct = (\<lambda>X v. if v = 13 then Inl (UserException ''unlucky'') else Inr v),
     move_construct = (\<lambda>X v. Inr (v, 0)), value_equal = (\<lambda>X. (=)), value_less = (\<lambda>X. (<)),
     size_of = (\<lambda>X. 8)\<rparr>"

theorem sv_of_roundtrip_witness:
  "\<exists>sv. sv_of sample_values [''int'', ''bool''] 7 ''bool'' 1 = Inr sv \<and> get_as [''int'', ''bool''] ''bool'' sv = Inr 1 \<and>
     get_as [''int'', ''bool''] ''int'' sv = Inl BadCast"
  using sv_of_roundtrip [of "''bool''" "[''int'', ''bool'']" sample_values 1 1 7 "\<lambda>X v. Inr v"]
  by (auto simp: sample_values_def)

text \<open>
  C28. Assigning one valid variant to another: to itself it changes nothing; otherwise the target ends
  up holding the copied value of the source. But the old object is destroyed before the new one is
  copied: when that copy throws, the exception leaves a target without an object under the source's
  tag, and its destructor, or the next assignment to it, destroys an object that does not live.
\<close>

theorem assign_copy_spec:
  assumes "holds L X x sv" and "holds L Y y v" and "length L < 2 ^ 63"
  shows "assign_copy V L True sv sv = (sv, Inr ()) \<and>
    (case copy_construct V Y y of
       Inr y' \<Rightarrow> (\<exists>sv'. assign_copy V L False v sv = (sv', Inr ()) \<and> holds L Y y' sv')
     | Inl e \<Rightarrow> assign_copy V L False v sv = (raw (which v), Inl e) \<and>
         clean L (raw (which v)) = (raw (which v), Inl (UB ''destructor of an object that does not live'')))"
proof -
  have copy: "assign_copy V L False v sv = init_copy V L Y y (sv\<lparr>storage := None\<rparr>)"
    by (simp add: assign_copy_def copy_into_def holds_reads(1,6) [OF assms(2,3)] holds_reads(5) [OF assms(1,3)])
  have "Y \<in> set L" "which v = TagOf L Y" using assms(2) by (simp_all add: holds_def which_def)
  then have "clean L (raw (which v)) = (raw (which v), Inl (UB ''destructor of an object that does not live''))"
    using assms(3) by (simp add: clean_def raw_def dispatch_on_TagOf)
  moreover have "init_copy V L Y y (sv\<lparr>storage := None\<rparr>) = (raw (which v), Inl e)" if "copy_construct V Y y = Inl e" for e
    using that \<open>which v = TagOf L Y\<close> by (simp add: init_copy_def raw_def)
  ultimately show ?thesis
    using init_copy_holds [OF \<open>Y \<in> set L\<close>] copy by (auto simp: assign_copy_def split: sum.split)
qed

theorem assign_copy_spec_witness:
  "assign_copy sample_values [''int'', ''bool''] False \<lparr>tag = 0, storage = Some (''int'', 13)\<rparr>
      \<lparr>tag = 1, storage = Some (''bool'', 1)\<rparr> = (raw 0, Inl (UserException ''unlucky'')) \<and>
   (\<exists>sv'. assign_copy sample_values [''int'', ''bool''] False \<lparr>tag = 0, storage = Some (''int'', 5)\<rparr>
      \<lparr>tag = 1, storage = Some (''bool'', 1)\<rparr> = (sv', Inr ()) \<and> holds [''int'', ''bool''] ''int'' 5 sv')"
  using assign_copy_spec [of "[''int'', ''bool'']" "''bool''" 1 "\<lparr>tag = 1, storage = Some (''bool'', 1)\<rparr>"
      "''int''" 13 "\<lparr>tag = 0, storage = Some (''int'', 13)\<rparr>" sample_values]
    assign_copy_spec [of "[''int'', ''bool'']" "''bool''" 1 "\<lparr>tag = 1, storage = Some (''bool'', 1)\<rparr>"
      "''int''" 5 "\<lparr>tag = 0, storage = Some (''int'', 5)\<rparr>" sample_values]
  by (auto simp: holds_def TagOf_def sample_values_def which_def)

lemma initFromTag_TagOf:
  "X \<in> set L \<Longrightarrow> length L < 2 ^ 63 \<Longrightarrow> default_construct V X = Inr v \<Longrightarrow>
   initFromTag V L (TagOf L X) sv = (\<lparr>tag = TagOf L X, storage = Some (X, v)\<rparr>, Inr ())"
  by (cases sv) (simp add: initFromTag_def not_bad_TagOf dispatch_on_TagOf Let_def)

text \<open>
  \<open>set_which\<close> and the class's static assertion: when the assertion against duplicate types holds,
  \<open>set_which\<close> with a tag in range leaves a variant that holds a default value of the type at that
  position, readable as that type; a tag out of range is refused and changes nothing.
\<close>

lemma set_which_spec:
  assumes "static_variant_types is_reference L" and "length L < 2 ^ 63" and "holds L X x sv"
    and "\<forall>Y. default_construct V Y = Inr (d Y)"
  shows "if 0 \<le> sint t \<and> sint t < int (length L)
    then \<exists>sv'. set_which V L t sv = (sv', Inr ()) \<and> which sv' = t \<and>
      get_as L (L ! nat (sint t)) sv' = Inr (d (L ! nat (sint t)))
    else set_which V L t sv = (sv, Inl (RangeError (sint t)))"
proof (cases "bad_tag L t")
  case True
  then show ?thesis using assms(2) by (auto simp: set_which_def bad_tag_iff)
next
  case False
  let ?Y = "L ! nat (sint t)"
  have t: "nat (sint t) < length L" "t = TagOf L ?Y"
    using good_tag [OF False assms(2)] static_variant_types_distinct [OF assms(1,2)] by auto
  then have Y: "?Y \<in> set L" by simp
  let ?sv = "\<lparr>tag = t, storage = Some (?Y, d ?Y)\<rparr>"
  have "initFromTag V L t (sv\<lparr>storage := None\<rparr>) = (?sv, Inr ())"
    using initFromTag_TagOf [OF Y assms(2), of V "d ?Y" "sv\<lparr>storage := None\<rparr>"] assms(4) by (simp flip: t(2))
  then have "set_which V L t sv = (?sv, Inr ())"
    using False holds_reads(5) [OF assms(3,2)] by (simp add: set_which_def)
  moreover have "holds L ?Y (d ?Y) ?sv" using Y t(2) by (simp add: holds_def)
  ultimately show ?thesis
    using False assms(2) holds_reads(1) [of L ?Y "d ?Y" ?sv] by (auto simp: bad_tag_iff which_def)
qed

text \<open>What the code relies on in the member types' comparisons.\<close>

definition ordered_values :: "('t, 'v) value_ops \<Rightarrow> bool" where
  "ordered_values V \<longleftrightarrow>
     (\<forall>X x y. if value_equal V X x y then \<not> value_less V X x y \<and> \<not> value_less V X y x
              else value_less V X x y \<noteq> value_less V X y x) \<and>
     (\<forall>X x y z. value_less V X x y \<longrightarrow> value_less V X y z \<longrightarrow> value_less V X x z) \<and>
     (\<forall>X x y. value_equal V X x y = value_equal V X y x)"

lemma sv_compare:
  assumes "holds L X x a" "holds L Y y b" "length L < 2 ^ 63"
  shows "sv_equal V L a b = Inr (X = Y \<and> value_equal V X x y)"
    "sv_less V L a b = Inr (indexOf L X < indexOf L Y \<or> (X = Y \<and> value_less V X x y))"
proof -
  have X: "X \<in> set L" and Y: "Y \<in> set L" and w: "which a = TagOf L X" "which b = TagOf L Y"
    using assms(1,2) by (simp_all add: holds_def which_def)
  have s: "sint (which a) = indexOf L X" "sint (which b) = indexOf L Y"
    using w X Y assms(3) by (simp_all add: sint_TagOf)
  have same: "which a = which b \<longleftrightarrow> X = Y" "indexOf L X = indexOf L Y \<longleftrightarrow> X = Y"
    using w TagOf_eq_iff [OF X Y assms(3)] type_index.tag_inj [OF X Y assms(3)] by auto
  show "sv_equal V L a b = Inr (X = Y \<and> value_equal V X x y)"
    using same(1) holds_reads(1,7) [OF assms(1,3)] holds_reads(1) [OF assms(2,3)]
    by (auto simp: sv_equal_def holds_reads(7) [OF assms(1,3)])
  show "sv_less V L a b = Inr (indexOf L X < indexOf L Y \<or> (X = Y \<and> value_less V X x y))"
  proof (cases "X = Y")
    case True
    then show ?thesis
      using s holds_reads(1) [OF assms(1,3)] holds_reads(1) [OF assms(2,3)]
      by (simp add: sv_less_def holds_reads(7) [OF assms(1,3)])
  next
    case False
    then have "indexOf L X \<noteq> indexOf L Y" using same(2) by simp
    with s False show ?thesis by (auto simp: sv_less_def)
  qed
qed

text \<open>
  C30. Variants are ordered first by type, then by value: of valid variants of different types the one
  whose type comes first in the list is less, and variants of one type compare as their values do; the
  comparisons never fail. When the types are ordered, then exactly one of less, equal and greater holds,
  and less is transitive, so a variant can be the key of an ordered container.
\<close>

theorem sv_less_total_order:
  assumes "ordered_values V" and "length L < 2 ^ 63"
    and "holds L X x a" and "holds L Y y b" and "holds L Z z c"
  shows "sv_less V L a b = Inr (if X = Y then value_less V X x y else indexOf L X < indexOf L Y) \<and>
    sv_equal V L a b = Inr (X = Y \<and> value_equal V X x y) \<and>
    (\<exists>lt eq gt. sv_less V L a b = Inr lt \<and> sv_equal V L a b = Inr eq \<and> sv_less V L b a = Inr gt \<and>
      (if eq then \<not> lt \<and> \<not> gt else lt \<noteq> gt)) \<and>
    (sv_less V L a b = Inr True \<and> sv_less V L b c = Inr True \<longrightarrow> sv_less V L a c = Inr True)"
proof -
  have X: "X \<in> set L" "Y \<in> set L" using assms(3,4) by (simp_all add: holds_def)
  have inj: "indexOf L X = indexOf L Y \<longleftrightarrow> X = Y" using type_index.tag_inj [OF X assms(2)] by auto
  have "(if X = Y \<and> value_equal V X x y then \<not> (indexOf L X < indexOf L Y \<or> (X = Y \<and> value_less V X x y)) \<and>
        \<not> (indexOf L Y < indexOf L X \<or> (Y = X \<and> value_less V Y y x))
      else (indexOf L X < indexOf L Y \<or> (X = Y \<and> value_less V X x y)) \<noteq>
        (indexOf L Y < indexOf L X \<or> (Y = X \<and> value_less V Y y x)))"
  proof (cases "X = Y")
    case True
    then show ?thesis using assms(1) [unfolded ordered_values_def, THEN conjunct1, rule_format, of Y x y] by auto
  next
    case False
    then show ?thesis using inj by auto
  qed
  moreover have "indexOf L X < indexOf L Z \<or> (X = Z \<and> value_less V X x z)"
    if "indexOf L X < indexOf L Y \<or> (X = Y \<and> value_less V X x y)"
      "indexOf L Y < indexOf L Z \<or> (Y = Z \<and> value_less V Y y z)"
    using that assms(1) unfolding ordered_values_def by (metis order.strict_trans)
  ultimately have "(\<exists>lt eq gt. sv_less V L a b = Inr lt \<and> sv_equal V L a b = Inr eq \<and> sv_less V L b a = Inr gt \<and>
      (if eq then \<not> lt \<and> \<not> gt else lt \<noteq> gt)) \<and>
    (sv_less V L a b = Inr True \<and> sv_less V L b c = Inr True \<longrightarrow> sv_less V L a c = Inr True)"
    by (simp add: sv_compare [OF assms(3,4,2)] sv_compare [OF assms(4,3,2)] sv_compare [OF assms(4,5,2)]
        sv_compare [OF assms(3,5,2)])
  moreover have "sv_less V L a b = Inr (if X = Y then value_less V X x y else indexOf L X < indexOf L Y)"
    using inj by (auto simp: sv_compare [OF assms(3,4,2)])
  ultimately show ?thesis using sv_compare(1) [OF assms(3,4,2)] by blast
qed

lemma sample_values_ordered: "ordered_values sample_values"
  by (auto simp: ordered_values_def sample_values_def)

theorem sv_less_total_order_witness:
  "sv_less sample_values [''int'', ''bool''] \<lparr>tag = 0, storage = Some (''int'', 9)\<rparr> \<lparr>tag = 1, storage = Some (''bool'', 1)\<rparr> = Inr True \<and>
   sv_less sample_values [''int'', ''bool''] \<lparr>tag = 1, storage = Some (''bool'', 2)\<rparr> \<lparr>tag = 1, storage = Some (''bool'', 1)\<rparr> =
     Inr (value_less sample_values ''bool'' 2 1)"
proof -
  let ?L = "[''int'', ''bool'']"
  have holds: "holds ?L ''int'' (9::nat) \<lparr>tag = 0, storage = Some (''int'', 9)\<rparr>"
    "holds ?L ''bool'' (1::nat) \<lparr>tag = 1, storage = Some (''bool'', 1)\<rparr>"
    "holds ?L ''bool'' (2::nat) \<lparr>tag = 1, storage = Some (''bool'', 2)\<rparr>"
    by (simp_all add: holds_def TagOf_def)
  have "length ?L < 2 ^ 63" by simp
  from sv_less_total_order [OF sample_values_ordered this holds(1,2,3)]
    sv_less_total_order [OF sample_values_ordered this holds(3,2,1)]
  show ?thesis by simp
qed

text \<open>
  \<open>ImportFrom\<close>: a valid variant over other types is imported with its value if its current type is
  one of this variant's, whatever its other types, and refused with \<open>std::bad_cast\<close> otherwise; importing
  the result back into the other variant gives the value copied twice.
\<close>

lemma ImportFrom_spec:
  assumes "holds Other X x other" and "length L < 2 ^ 63" and "length Other < 2 ^ 63"
    and "copy_construct V X x = Inr x'" and "copy_construct V X x' = Inr x''"
  shows "if X \<in> set L
    then \<exists>sv again. ImportFrom V L Other junk other = Inr sv \<and> holds L X x' sv \<and>
      ImportFrom V Other L junk' sv = Inr again \<and> holds Other X x'' again
    else ImportFrom V L Other junk other = Inl BadCast"
proof -
  have run: "ImportFrom V L Other junk other = ImportHelper V L junk X x"
    by (simp add: ImportFrom_def holds_reads(1,7) [OF assms(1,3)])
  show ?thesis
  proof (cases "X \<in> set L")
    case True
    obtain sv where sv: "init_copy V L X x (raw junk) = (sv, Inr ())" "holds L X x' sv"
      using init_copy_holds [OF True assms(4)] by blast
    have "X \<in> set Other" using assms(1) by (simp add: holds_def)
    then obtain again where again: "init_copy V Other X x' (raw junk') = (again, Inr ())" "holds Other X x'' again"
      using init_copy_holds [OF _ assms(5)] by blast
    have "ImportFrom V Other L junk' sv = ImportHelper V Other junk' X x'"
      by (simp add: ImportFrom_def holds_reads(1,7) [OF sv(2) assms(2)])
    with True run sv again \<open>X \<in> set Other\<close> show ?thesis
      by (simp add: ImportHelper_def sv_of_def constructed_def)
  next
    case False
    with run show ?thesis by (simp add: ImportHelper_def)
  qed
qed

lemma MaxSize_bound: "s \<in> set sizes \<Longrightarrow> s \<le> MaxSize sizes"
  by (induction sizes rule: MaxSize.induct) (auto simp: le_max_iff_disj)

end
