(* ===== verification/Variant_Move.thy ===== *)
theory Variant_Move
  imports Static_Variant
begin

text \<open>
  The rest of \<open>Infra/StaticVariant.hpp\<close>: construction and import from rvalues, which move the value and
  leave the source with what remains of it; assignment of a variant's own value; and the variant as an
  implementation of a tagged value, for any sequence of operations on it.
\<close>

section \<open>Moving\<close>

definition sv_of_move :: "('t, 'v) value_ops \<Rightarrow> 't list \<Rightarrow> i64 \<Rightarrow> 't \<Rightarrow> 'v \<Rightarrow> (('t, 'v) static_variant \<times> 'v) res" where
  "sv_of_move V Types junk X x =
     (case init_move V Types X x (raw junk) of (sv, r) \<Rightarrow> rbind r (\<lambda>rest. Inr (sv, rest)))"

text \<open>The two move constructors: from the same variant type, and with \<open>Other\<close> from another one.\<close>

definition sv_move ::
  "('t, 'v) value_ops \<Rightarrow> 't list \<Rightarrow> 't list \<Rightarrow> i64 \<Rightarrow> ('t, 'v) static_variant \<Rightarrow>
   ('t, 'v) static_variant \<times> ('t, 'v) static_variant res" where
  "sv_move V Types Other junk mv =
     (case move_into V Types Other mv (raw junk) of ((sv, mv'), r) \<Rightarrow> (mv', rbind r (\<lambda>_. Inr sv)))"

definition ImportHelper_move ::
  "('t, 'v) value_ops \<Rightarrow> 't list \<Rightarrow> i64 \<Rightarrow> 't \<Rightarrow> 'v \<Rightarrow> (('t, 'v) static_variant \<times> 'v) res" where
  "ImportHelper_move V Types junk X x = (if indexOf Types X \<noteq> -1 then sv_of_move V Types junk X x else Inl BadCast)"

definition ImportFrom_move ::
  "('t, 'v) value_ops \<Rightarrow> 't list \<Rightarrow> 't list \<Rightarrow> i64 \<Rightarrow> ('t, 'v) static_variant \<Rightarrow>
   ('t, 'v) static_variant \<times> ('t, 'v) static_variant res" where
  "ImportFrom_move V Types Other junk other =
     dispatch_on Other (which other) (\<lambda>X. case get_as Other X other of
         Inl e \<Rightarrow> (other, Inl e)
       | Inr x \<Rightarrow> (case ImportHelper_move V Types junk X x of
             Inl e \<Rightarrow> (other, Inl e)
           | Inr (sv, rest) \<Rightarrow> (put_as X rest other, Inr sv))) other"

text \<open>Assignment from a reference to the variant's own value, \<open>v = v.get<X>()\<close>: the value is read from
  the storage after \<open>clean\<close>.\<close>

definition assign_own ::
  "('t, 'v) value_ops \<Rightarrow> 't list \<Rightarrow> 't \<Rightarrow> ('t, 'v) static_variant \<Rightarrow> ('t, 'v) static_variant \<times> unit res" where
  "assign_own V Types X sv =
     (case get_as Types X sv of
        Inl e \<Rightarrow> (sv, Inl e)
      | Inr _ \<Rightarrow>
          (case clean Types sv of
             (sv1, Inl e) \<Rightarrow> (sv1, Inl e)
           | (sv1, Inr _) \<Rightarrow>
               (case storage sv1 of
                  None \<Rightarrow> (sv1\<lparr>tag := TagOf Types X\<rparr>, Inl (UB ''copy of an object that does not live''))
                | Some (Y, x) \<Rightarrow> init_copy V Types X x sv1)))"

text \<open>The destructor. Like every destructor it must not be left by an exception, and \<open>clean\<close> throws one when
  the tag is out of range.\<close>

definition destroy_StaticVariant ::
  "'t list \<Rightarrow> ('t, 'v) static_variant \<Rightarrow> ('t, 'v) static_variant \<times> unit res" where
  "destroy_StaticVariant Types sv =
     (case clean Types sv of
        (sv1, Inl (UB msg)) \<Rightarrow> (sv1, Inl (UB msg))
      | (sv1, Inl e) \<Rightarrow> (sv1, Inl (Terminate ''exception in a destructor''))
      | (sv1, Inr _) \<Rightarrow> (sv1, Inr ()))"

text \<open>Member types whose constructors do not throw: a default value of each type, the copy of a value,
  the moved value and what a move leaves behind.\<close>

definition never_throws ::
  "('t, 'v) value_ops \<Rightarrow> ('t \<Rightarrow> 'v) \<Rightarrow> ('t \<Rightarrow> 'v \<Rightarrow> 'v) \<Rightarrow> ('t \<Rightarrow> 'v \<Rightarrow> 'v) \<Rightarrow> ('t \<Rightarrow> 'v \<Rightarrow> 'v) \<Rightarrow> bool" where
  "never_throws V dflt copy moved rest \<longleftrightarrow>
     (\<forall>X. default_construct V X = Inr (dflt X)) \<and>
     (\<forall>X x. copy_construct V X x = Inr (copy X x)) \<and>
     (\<forall>X x. move_construct V X x = Inr (moved X x, rest X x))"

lemma init_move_holds:
  "X \<in> set L \<Longrightarrow> move_construct V X x = Inr (v, rest) \<Longrightarrow>
   \<exists>sv'. init_move V L X x sv = (sv', Inr rest) \<and> holds L X v sv'"
  by (cases sv) (simp add: init_move_def holds_def)

lemma put_as_holds: "holds L X x sv \<Longrightarrow> holds L X y (put_as X y sv)"
  by (simp add: holds_def put_as_def)

lemma move_into_holds:
  assumes "holds Other X x mv" "length Other < 2 ^ 63" "X \<in> set L" "move_construct V X x = Inr (v, rest)"
  shows "\<exists>sv'. move_into V L Other mv sv = ((sv', put_as X rest mv), Inr ()) \<and> holds L X v sv'"
proof -
  obtain sv' where "init_move V L X x sv = (sv', Inr rest)" "holds L X v sv'"
    using init_move_holds [OF assms(3,4)] by blast
  then show ?thesis by (simp add: move_into_def holds_reads(1,6) [OF assms(1,2)])
qed

lemma sv_move_spec:
  assumes "holds Other X x mv" "length Other < 2 ^ 63" "X \<in> set L" "move_construct V X x = Inr (v, rest)"
  shows "\<exists>sv. sv_move V L Other junk mv = (put_as X rest mv, Inr sv) \<and> holds L X v sv \<and> holds Other X rest (put_as X rest mv)"
  using move_into_holds [OF assms, of "raw junk"] put_as_holds [OF assms(1)] by (auto simp: sv_move_def)

lemma ImportFrom_move_spec:
  assumes "holds Other X x other" "length Other < 2 ^ 63" "move_construct V X x = Inr (v, rest)"
  shows "if X \<in> set L
    then \<exists>sv. ImportFrom_move V L Other junk other = (put_as X rest other, Inr sv) \<and> holds L X v sv \<and>
      holds Other X rest (put_as X rest other)
    else ImportFrom_move V L Other junk other = (other, Inl BadCast)"
proof (cases "X \<in> set L")
  case True
  obtain sv where sv: "init_move V L X x (raw junk) = (sv, Inr rest)" "holds L X v sv"
    using init_move_holds [OF True assms(3)] by blast
  then show ?thesis
    using True put_as_holds [OF assms(1)]
    by (simp add: ImportFrom_move_def holds_reads(1,6) [OF assms(1,2)] ImportHelper_move_def sv_of_move_def)
next
  case False
  then show ?thesis
    by (simp add: ImportFrom_move_def holds_reads(1,6) [OF assms(1,2)] ImportHelper_move_def)
qed

text \<open>Assigning a variant's own value to it, by reference, copies an object that \<open>clean\<close> has destroyed.\<close>

lemma assign_own_undefined:
  assumes "holds L X x sv" "length L < 2 ^ 63"
  shows "snd (assign_own V L X sv) = Inl (UB ''copy of an object that does not live'')"
  by (simp add: assign_own_def holds_reads(1,5) [OF assms])

section \<open>A variant is a tagged value\<close>

text \<open>The operations that change a variant; \<open>Write\<close> is an assignment through the reference that \<open>get\<close>
  returns, and the value of \<open>Assign_value\<close> lives outside of the variant.\<close>

datatype ('t, 'v) variant_op =
    Assign_value 't 'v
  | Assign_copy "('t, 'v) static_variant"
  | Assign_move "('t, 'v) static_variant"
  | Assign_self
  | Move_self
  | Set_which i64
  | Write 't 'v

fun variant_step ::
  "('t, 'v) value_ops \<Rightarrow> 't list \<Rightarrow> ('t, 'v) variant_op \<Rightarrow> ('t, 'v) static_variant \<Rightarrow> ('t, 'v) static_variant \<times> unit res" where
  "variant_step V L (Assign_value X x) sv = assign_value V L X x sv"
| "variant_step V L (Assign_copy v) sv = assign_copy V L False v sv"
| "variant_step V L (Assign_move v) sv = (case assign_move V L False v sv of ((sv', v'), r) \<Rightarrow> (sv', r))"
| "variant_step V L Assign_self sv = assign_copy V L True sv sv"
| "variant_step V L Move_self sv = (case assign_move V L True sv sv of ((sv', v'), r) \<Rightarrow> (sv', r))"
| "variant_step V L (Set_which t) sv = set_which V L t sv"
| "variant_step V L (Write X x) sv =
     (case get_as L X sv of Inl e \<Rightarrow> (sv, Inl e) | Inr _ \<Rightarrow> (put_as X x sv, Inr ()))"

text \<open>The specification: the state is a type and a value of it.\<close>

fun tagged_step ::
  "('t \<Rightarrow> 'v) \<Rightarrow> ('t \<Rightarrow> 'v \<Rightarrow> 'v) \<Rightarrow> ('t \<Rightarrow> 'v \<Rightarrow> 'v) \<Rightarrow> 't list \<Rightarrow> ('t, 'v) variant_op \<Rightarrow> 't \<times> 'v \<Rightarrow> ('t \<times> 'v) \<times> unit res" where
  "tagged_step dflt copy moved L (Assign_value X x) s = ((X, copy X x), Inr ())"
| "tagged_step dflt copy moved L (Assign_copy v) s =
     (case storage v of Some (Y, y) \<Rightarrow> ((Y, copy Y y), Inr ()) | None \<Rightarrow> (s, Inl (UB ''no value'')))"
| "tagged_step dflt copy moved L (Assign_move v) s =
     (case storage v of Some (Y, y) \<Rightarrow> ((Y, moved Y y), Inr ()) | None \<Rightarrow> (s, Inl (UB ''no value'')))"
| "tagged_step dflt copy moved L Assign_self s = (s, Inr ())"
| "tagged_step dflt copy moved L Move_self s = (s, Inr ())"
| "tagged_step dflt copy moved L (Set_which t) s =
     (if 0 \<le> sint t \<and> sint t < int (length L) then ((L ! nat (sint t), dflt (L ! nat (sint t))), Inr ())
      else (s, Inl (RangeError (sint t))))"
| "tagged_step dflt copy moved L (Write X x) s = (if X = fst s then ((X, x), Inr ()) else (s, Inl BadCast))"

text \<open>Operations on types of the list, from valid variants.\<close>

fun well_typed_op :: "'t list \<Rightarrow> ('t, 'v) variant_op \<Rightarrow> bool" where
  "well_typed_op L (Assign_value X x) \<longleftrightarrow> X \<in> set L"
| "well_typed_op L (Assign_copy v) \<longleftrightarrow> (\<exists>Y y. holds L Y y v)"
| "well_typed_op L (Assign_move v) \<longleftrightarrow> (\<exists>Y y. holds L Y y v)"
| "well_typed_op L (Write X x) \<longleftrightarrow> X \<in> set L"
| "well_typed_op L _ \<longleftrightarrow> True"

fun run_ops :: "('op \<Rightarrow> 's \<Rightarrow> 's \<times> unit res) \<Rightarrow> 'op list \<Rightarrow> 's \<Rightarrow> 's \<times> unit res list" where
  "run_ops step [] s = (s, [])"
| "run_ops step (c # cs) s = (let (s1, r) = step c s; (s2, rs) = run_ops step cs s1 in (s2, r # rs))"

lemma variant_step_refines:
  assumes "static_variant_types is_reference L" "length L < 2 ^ 63" "never_throws V dflt copy moved rest"
    and "holds L X x sv" "well_typed_op L c"
  shows "\<exists>sv'. variant_step V L c sv = (sv', snd (tagged_step dflt copy moved L c (X, x))) \<and>
    (case fst (tagged_step dflt copy moved L c (X, x)) of (Y, y) \<Rightarrow> holds L Y y sv')"
proof -
  note ops = assms(3) [unfolded never_throws_def]
  note cleaned = holds_reads(5) [OF assms(4,2)]
  have L: "X \<in> set L" using assms(4) by (simp add: holds_def)
  show ?thesis
  proof (cases c)
    case (Assign_value Y y)
    then show ?thesis
      using init_copy_holds [of Y L V y "copy Y y"] ops assms(5) by (auto simp: assign_value_def cleaned)
  next
    case (Assign_copy v)
    then obtain Y y where v: "holds L Y y v" using assms(5) by auto
    then have "storage v = Some (Y, y)" "Y \<in> set L" by (simp_all add: holds_def)
    with Assign_copy show ?thesis
      using init_copy_holds [of Y L V y "copy Y y"] ops
      by (auto simp: assign_copy_def copy_into_def cleaned holds_reads(1,6) [OF v assms(2)])
  next
    case (Assign_move v)
    then obtain Y y where v: "holds L Y y v" using assms(5) by auto
    then have "storage v = Some (Y, y)" "Y \<in> set L" by (simp_all add: holds_def)
    with Assign_move show ?thesis
      using move_into_holds [OF v assms(2), of L V "moved Y y" "rest Y y" "sv\<lparr>storage := None\<rparr>"] ops
      by (auto simp: assign_move_def cleaned)
  next
    case (Set_which t)
    show ?thesis
    proof (cases "bad_tag L t")
      case True
      then show ?thesis using assms(2,4) Set_which by (auto simp: set_which_def bad_tag_iff)
    next
      case False
      let ?Y = "L ! nat (sint t)"
      have t: "?Y \<in> set L" "t = TagOf L ?Y"
        using good_tag [OF False assms(2)] static_variant_types_distinct [OF assms(1,2)] by auto
      let ?sv = "\<lparr>tag = t, storage = Some (?Y, dflt ?Y)\<rparr>"
      have "set_which V L t sv = (?sv, Inr ())"
        using initFromTag_TagOf [OF t(1) assms(2), of V "dflt ?Y"] ops False
        by (simp add: set_which_def cleaned flip: t(2))
      moreover have "holds L ?Y (dflt ?Y) ?sv" using t by (simp add: holds_def)
      ultimately show ?thesis using False assms(2) Set_which by (auto simp: bad_tag_iff)
    qed
  next
    case (Write Y y)
    then show ?thesis
      using assms(5) L put_as_holds [OF assms(4)] holds_reads(1,2) [OF assms(4,2)] assms(4) by auto
  qed (use assms(4) in \<open>simp_all add: assign_copy_def assign_move_def\<close>)
qed

lemma run_ops_refines:
  assumes "static_variant_types is_reference L" "length L < 2 ^ 63" "never_throws V dflt copy moved rest"
  shows "holds L X x sv \<Longrightarrow> list_all (well_typed_op L) cs \<Longrightarrow>
    \<exists>sv' Y y rs. run_ops (variant_step V L) cs sv = (sv', rs) \<and>
      run_ops (tagged_step dflt copy moved L) cs (X, x) = ((Y, y), rs) \<and> holds L Y y sv'"
proof (induction cs arbitrary: sv X x)
  case (Cons c cs)
  obtain Y y r where step: "tagged_step dflt copy moved L c (X, x) = ((Y, y), r)" by (metis prod.exhaust)
  with variant_step_refines [OF assms Cons.prems(1), of c] Cons.prems(2) obtain sv1 where
    "variant_step V L c sv = (sv1, r)" "holds L Y y sv1" by auto
  with Cons.IH [OF this(2)] Cons.prems(2) step show ?case by fastforce
qed auto

text \<open>
  C34. A variant is a tagged value: when the class's static assertions hold and the constructors of the
  member types do not throw, any sequence of assignments, moves, self-assignments, changes of the tag and
  writes, with any of them refused, leaves a valid variant that holds exactly what the same sequence
  makes of a pair of a type and a value, and reports exactly the same errors; reading it as the held type
  gives that value, it can be destroyed, and nothing that is done to it is undefined.
\<close>

theorem variant_refines_tagged_value:
  assumes "static_variant_types is_reference L" and "length L < 2 ^ 63"
    and "never_throws V dflt copy moved rest"
    and "holds L X x sv" and "list_all (well_typed_op L) cs"
  shows "case (run_ops (variant_step V L) cs sv, run_ops (tagged_step dflt copy moved L) cs (X, x)) of
      ((sv', rs), ((Y, y), rs')) \<Rightarrow> rs = rs' \<and> holds L Y y sv' \<and> get_as L Y sv' = Inr y \<and>
        destroy_StaticVariant L sv' = (sv'\<lparr>storage := None\<rparr>, Inr ()) \<and> (\<forall>msg. Inl (UB msg) \<notin> set rs)"
proof -
  obtain sv' Y y rs where run: "run_ops (variant_step V L) cs sv = (sv', rs)"
    "run_ops (tagged_step dflt copy moved L) cs (X, x) = ((Y, y), rs)" "holds L Y y sv'"
    using run_ops_refines [OF assms] by blast
  have defined: "\<forall>msg. snd (tagged_step dflt copy moved L c s) \<noteq> Inl (UB msg)" if "well_typed_op L c" for c s
    using that by (cases c) (auto simp: holds_def)
  have "\<forall>msg. Inl (UB msg) \<notin> set (snd (run_ops (tagged_step dflt copy moved L) cs s))" for s
    using assms(5)
  proof (induction cs arbitrary: s)
    case (Cons c cs)
    then show ?case using defined [of c s] by (auto simp: split: prod.split) (metis snd_conv)+
  qed simp
  from this [of "(X, x)"] run holds_reads(1,5) [OF run(3) assms(2)] show ?thesis
    by (simp add: destroy_StaticVariant_def)
qed

definition plain_values :: "(string, nat) value_ops" where
  "plain_values = sample_values\<lparr>copy_construct := \<lambda>X v. Inr v\<rparr>"

theorem variant_refines_tagged_value_witness:
  "case run_ops (variant_step plain_values [''int'', ''bool'']) [Write ''int'' 6, Write ''bool'' 1, Set_which 1, Set_which 2]
      \<lparr>tag = 0, storage = Some (''int'', 5)\<rparr> of
     (sv', rs) \<Rightarrow> get_as [''int'', ''bool''] ''bool'' sv' = Inr 0 \<and> rs = [Inr (), Inl BadCast, Inr (), Inl (RangeError 2)]"
proof -
  have plain: "never_throws plain_values (\<lambda>X. 0) (\<lambda>X v. v) (\<lambda>X v. v) (\<lambda>X v. 0)"
    by (simp add: never_throws_def plain_values_def sample_values_def)
  have types: "static_variant_types (\<lambda>X. False) [''int'', ''bool'']"
    by (simp add: static_variant_types_def concatUnique_def)
  have start: "holds [''int'', ''bool''] ''int'' 5 \<lparr>tag = 0, storage = Some (''int'', 5 :: nat)\<rparr>"
    by (simp add: holds_def TagOf_def)
  show ?thesis
    using variant_refines_tagged_value [OF types _ plain start,
        of "[Write ''int'' 6, Write ''bool'' 1, Set_which 1, Set_which 2]"]
    by (auto split: prod.splits)
qed

end
