(* ===== verification/String_T.thy ===== *)
theory String_T
  imports Type_List
begin

text \<open>
  \<open>Infra/StringT.hpp\<close> and the string part of \<open>Infra/Utilities.hpp\<close>: compile-time strings. The type
  \<open>StringT<C...>\<close> is the list of its characters. \<open>StrT("...")\<close> builds one from a literal by
  grabbing a fixed number of characters (the \<open>STRINGT<n>\<close> macros) and cutting the result at the
  terminator (the overload set \<open>typoke\<close>); \<open>SplitStringT\<close> cuts a string at a delimiter.
\<close>

abbreviation NUL :: char where "NUL \<equiv> CHR 0x00"

section \<open>The string type\<close>

text \<open>The array behind \<open>data()\<close> and \<open>cbegin()\<close>, its size and the position of \<open>cend()\<close>.\<close>

definition StringT_vals :: "string \<Rightarrow> char list" where
  "StringT_vals C = C @ [NUL]"

definition StringT_size :: "string \<Rightarrow> u32" where
  "StringT_size C = of_nat (length C)"

definition StringT_cend :: "string \<Rightarrow> nat" where
  "StringT_cend C = unat (StringT_size C)"

section \<open>From a literal to a string type\<close>

text \<open>\<open>tygrab<N>(c)\<close> on the array of a literal: past its end it stays at the terminator.\<close>

definition tygrab :: "nat \<Rightarrow> char list \<Rightarrow> char" where
  "tygrab N c = (let M = length c in c ! (if N < M then N else M - 1))"

text \<open>The overloads of \<open>typoke\<close>, most specialised first: the string collected so far and the
  one-character strings still to come.\<close>

fun typoke :: "string \<Rightarrow> char list \<Rightarrow> string" where
  "typoke X [] = X"
| "typoke X (A # Y) =
     (if A = NUL then (if X = [NUL] then [] else X) else typoke (X @ [A]) Y)"

fun typeek :: "string \<Rightarrow> string option" where
  "typeek [] = None"
| "typeek (c # cs) = (if c = NUL \<and> cs = [] then Some [] else Some (typoke [c] cs))"

fun tycat :: "string list \<Rightarrow> string option" where
  "tycat [] = None"
| "tycat [x] = Some x"
| "tycat (x # y # zs) = tycat ((x @ y) # zs)"

text \<open>The macros paste hexadecimal digits: the prefix \<open>n\<close> followed by the digit \<open>d\<close> is \<open>16 n + d\<close>,
  and the empty prefix is \<open>0\<close>. Each expands to the list of the \<open>tygrab\<close> indexes.\<close>

definition STRINGT1 :: "nat \<Rightarrow> nat list" where
  "STRINGT1 n = [16*n]"

definition STRINGT2 :: "nat \<Rightarrow> nat list" where
  "STRINGT2 n = [16*n, 16*n + 1]"

definition STRINGT4 :: "nat \<Rightarrow> nat list" where
  "STRINGT4 n = [16*n, 16*n + 1, 16*n + 2, 16*n + 3]"

definition STRINGT8 :: "nat \<Rightarrow> nat list" where
  "STRINGT8 n = [16*n, 16*n + 1, 16*n + 2, 16*n + 3, 16*n + 4, 16*n + 5, 16*n + 6, 16*n + 7]"

definition STRINGT16 :: "nat \<Rightarrow> nat list" where
  "STRINGT16 n =
     [16*n, 16*n + 1, 16*n + 2, 16*n + 3, 16*n + 4, 16*n + 5, 16*n + 6, 16*n + 7,
      16*n + 8, 16*n + 9, 16*n + 10, 16*n + 11, 16*n + 12, 16*n + 13, 16*n + 14, 16*n + 15]"

definition STRINGT32 :: "nat \<Rightarrow> nat list" where
  "STRINGT32 n = STRINGT16 (16*n) @ STRINGT16 (16*n + 1)"

definition STRINGT64 :: "nat \<Rightarrow> nat list" where
  "STRINGT64 n =
     STRINGT16 (16*n) @ STRINGT16 (16*n + 1) @ STRINGT16 (16*n + 2) @ STRINGT16 (16*n + 3)"

definition STRINGT128 :: "nat \<Rightarrow> nat list" where
  "STRINGT128 n =
     STRINGT16 (16*n) @ STRINGT16 (16*n + 1) @ STRINGT16 (16*n + 2) @ STRINGT16 (16*n + 3) @
     STRINGT16 (16*n + 4) @ STRINGT16 (16*n + 5) @ STRINGT16 (16*n + 6) @ STRINGT16 (16*n + 7)"

definition STRINGT256 :: "nat \<Rightarrow> nat list" where
  "STRINGT256 n =
     STRINGT16 (16*n) @ STRINGT16 (16*n + 1) @ STRINGT16 (16*n + 2) @ STRINGT16 (16*n + 3) @
     STRINGT16 (16*n + 4) @ STRINGT16 (16*n + 5) @ STRINGT16 (16*n + 6) @ STRINGT16 (16*n + 7) @
     STRINGT16 (16*n + 8) @ STRINGT16 (16*n + 9) @ STRINGT16 (16*n + 10) @ STRINGT16 (16*n + 11) @
     STRINGT16 (16*n + 12) @ STRINGT16 (16*n + 13) @ STRINGT16 (16*n + 14) @ STRINGT16 (16*n + 15)"

definition STRINGT512 :: "nat \<Rightarrow> nat list" where
  "STRINGT512 n = STRINGT256 (16*n) @ STRINGT256 (16*n + 1)"

definition STRINGT1024 :: "nat \<Rightarrow> nat list" where
  "STRINGT1024 n =
     STRINGT256 (16*n) @ STRINGT256 (16*n + 1) @ STRINGT256 (16*n + 2) @
     STRINGT128 (16*n + 3) @ STRINGT16 (256*n + 0x38) @ STRINGT16 (256*n + 0x39) @
     STRINGT16 (256*n + 0x3A) @ STRINGT16 (256*n + 0x3B) @ STRINGT16 (256*n + 0x3C) @
     STRINGT16 (256*n + 0x3D) @ STRINGT16 (256*n + 0x3E) @ STRINGT16 (256*n + 0x3F)"

text \<open>The \<open>#if\<close> cascade: \<open>None\<close> stands for \<open>USE_STRINGT\<close> not defined.\<close>

definition StrT_indexes :: "int option \<Rightarrow> nat list" where
  "StrT_indexes use = (case use of
      None \<Rightarrow> STRINGT64 0
    | Some u \<Rightarrow>
        if u = 0 then STRINGT1 0 else if u = 1 then STRINGT2 0 else if u = 2 then STRINGT4 0
        else if u = 3 then STRINGT8 0 else if u = 4 then STRINGT16 0 else if u = 5 then STRINGT32 0
        else if u = 6 then STRINGT64 0 else if u = 7 then STRINGT128 0
        else if u = 8 then STRINGT256 0 else if u = 9 then STRINGT512 0
        else if u = 10 then STRINGT1024 0 else STRINGT64 0)"

definition StrT :: "int option \<Rightarrow> string \<Rightarrow> string option" where
  "StrT use literal = typeek (map (\<lambda>N. tygrab N (literal @ [NUL])) (StrT_indexes use))"

section \<open>Splitting and comparing\<close>

fun SplitStringImpl :: "string \<Rightarrow> char \<Rightarrow> string \<Rightarrow> string list \<Rightarrow> string list option" where
  "SplitStringImpl (First # Rest) Delimiter (Current1 # CurrentN) Result =
     (if First = Delimiter
      then Option.bind (tl_append Result (Current1 # CurrentN)) (SplitStringImpl Rest Delimiter [])
      else SplitStringImpl Rest Delimiter ((Current1 # CurrentN) @ [First]) Result)"
| "SplitStringImpl (First # Rest) Delimiter [] Result =
     (if First = Delimiter then SplitStringImpl Rest Delimiter [] Result
      else SplitStringImpl Rest Delimiter [First] Result)"
| "SplitStringImpl [] Delimiter Current Result =
     (if StringT_size Current \<noteq> 0 then tl_append Result Current else Some Result)"

definition SplitStringT :: "string \<Rightarrow> char \<Rightarrow> string list option" where
  "SplitStringT Str Delimiter = SplitStringImpl Str Delimiter [] []"

definition StringT_eq :: "string \<Rightarrow> string \<Rightarrow> bool" where
  "StringT_eq Str1 Str2 \<longleftrightarrow>
     (if length Str1 \<noteq> length Str2 then False
      else list_all (\<lambda>(c, d). c = d) (zip Str1 Str2))"

definition StringT_neq :: "string \<Rightarrow> string \<Rightarrow> bool" where
  "StringT_neq s1 s2 \<longleftrightarrow> \<not> StringT_eq s1 s2"

section \<open>The macros are index ranges\<close>

lemma STRINGT16_eq: "STRINGT16 n = [16*n ..< 16*n + 16]"
  by (simp add: STRINGT16_def upt_rec numeral_eq_Suc)

lemma upt_join: "b = b' \<Longrightarrow> a \<le> b \<Longrightarrow> b \<le> c \<Longrightarrow> [a..<b] @ [b'..<c] = [a..<c]"
  by (metis le_add_diff_inverse upt_add_eq_append)

lemma upt_join_more: "b = b' \<Longrightarrow> a \<le> b \<Longrightarrow> b \<le> c \<Longrightarrow> [a..<b] @ [b'..<c] @ xs = [a..<c] @ xs"
  by (simp add: upt_join flip: append_assoc)

lemmas join_ranges = STRINGT16_eq upt_join upt_join_more

lemma STRINGT128_eq: "STRINGT128 n = [256*n ..< 256*n + 128]"
  by (simp add: STRINGT128_def join_ranges add.commute del: upt_rec_numeral)

lemma STRINGT256_eq: "STRINGT256 n = [256*n ..< 256*n + 256]"
  by (simp add: STRINGT256_def join_ranges add.commute del: upt_rec_numeral)

definition StrT_max :: "int option \<Rightarrow> nat" where
  "StrT_max use = (case use of None \<Rightarrow> 64 | Some u \<Rightarrow> if 0 \<le> u \<and> u \<le> 10 then 2 ^ nat u else 64)"

lemma StrT_indexes_eq: "StrT_indexes use = [0 ..< StrT_max use]"
proof -
  have small: "STRINGT1 0 = [0..<1]" "STRINGT2 0 = [0..<2]" "STRINGT4 0 = [0..<4]"
    "STRINGT8 0 = [0..<8]"
    by (simp_all add: STRINGT1_def STRINGT2_def STRINGT4_def STRINGT8_def upt_rec)
  have big: "STRINGT16 0 = [0..<16]" "STRINGT32 0 = [0..<32]" "STRINGT64 0 = [0..<64]"
    "STRINGT128 0 = [0..<128]" "STRINGT256 0 = [0..<256]" "STRINGT512 0 = [0..<512]"
    "STRINGT1024 0 = [0..<1024]"
    by (simp_all add: STRINGT32_def STRINGT64_def STRINGT512_def STRINGT1024_def
        STRINGT128_eq STRINGT256_eq join_ranges del: upt_rec_numeral)
  show ?thesis
  proof (cases use)
    case (Some u)
    have "u < 0 \<or> 10 < u \<or> u \<in> {0, 1, 2, 3, 4, 5, 6, 7, 8, 9, 10}" by (simp; arith)
    then show ?thesis
      using Some small big by (auto simp: StrT_indexes_def StrT_max_def)
  qed (simp add: StrT_indexes_def StrT_max_def big)
qed

lemma StrT_max_pos: "0 < StrT_max use"
  by (simp add: StrT_max_def split: option.split)

section \<open>Building a string from a literal\<close>

lemma map_tygrab:
  "map (\<lambda>N. tygrab N (lit @ [NUL])) [0..<m] = take m lit @ replicate (m - length lit) NUL"
  by (rule nth_equalityI) (auto simp: tygrab_def Let_def nth_append)

lemma typoke_terminated:
  "NUL \<notin> set Y \<Longrightarrow> X \<noteq> [NUL] \<Longrightarrow> typoke X (Y @ replicate k NUL) = X @ Y"
proof (induction Y arbitrary: X)
  case Nil
  then show ?case by (cases k) auto
qed auto

text \<open>
  \<open>StrT(literal)\<close> of a literal without embedded terminator is the string type of its
  characters, cut at the maximal length that \<open>USE_STRINGT\<close> selects: \<open>2^n\<close> for \<open>n\<close> from 0 to 10, and
  64 when it is undefined or out of that range. A longer literal is cut without an error.
\<close>

lemma StrT_spec:
  assumes "NUL \<notin> set literal"
  shows "StrT use literal = Some (take (StrT_max use) literal)"
proof -
  have StrT: "StrT use literal =
    typeek (take (StrT_max use) literal @ replicate (StrT_max use - length literal) NUL)"
    by (simp only: StrT_def StrT_indexes_eq map_tygrab)
  show ?thesis
  proof (cases literal)
    case Nil
    obtain k where "StrT_max use = Suc k" using StrT_max_pos [of use] gr0_implies_Suc by blast
    with StrT Nil show ?thesis by (cases k) auto
  next
    case (Cons c cs)
    obtain k where k: "StrT_max use = Suc k" using StrT_max_pos [of use] gr0_implies_Suc by blast
    have "NUL \<notin> set (take k cs)" "c \<noteq> NUL" using assms Cons by (auto dest: in_set_takeD)
    with StrT Cons k show ?thesis by (simp add: typoke_terminated)
  qed
qed

section \<open>Splitting and comparing: properties\<close>

text \<open>The reference: all fields between delimiters, the empty ones included.\<close>

fun split_fields :: "char \<Rightarrow> string \<Rightarrow> string list" where
  "split_fields d [] = [[]]"
| "split_fields d (c # cs) =
     (if c = d then [] # split_fields d cs else (c # hd (split_fields d cs)) # tl (split_fields d cs))"

lemma split_fields_nonempty [simp]: "split_fields d s \<noteq> []"
  by (cases s) auto

lemma unat_StringT_size: "length s < 2 ^ 32 \<Longrightarrow> unat (StringT_size s) = length s"
  by (simp add: StringT_size_def unat_of_nat)

lemma StringT_size_nonzero: "length s < 2 ^ 32 \<Longrightarrow> StringT_size s \<noteq> 0 \<longleftrightarrow> s \<noteq> []"
  using unat_StringT_size [of s] by (metis length_0_conv unat_eq_zero)

lemma SplitStringImpl_eq:
  "length cur + length s < 2 ^ 32 \<Longrightarrow>
   SplitStringImpl s d cur res =
     Some (res @ filter (\<lambda>f. f \<noteq> []) ((cur @ hd (split_fields d s)) # tl (split_fields d s)))"
proof (induction s d cur res rule: SplitStringImpl.induct)
  case (1 First Rest Delimiter Current1 CurrentN Result)
  then show ?case by (cases "split_fields Delimiter Rest") auto
next
  case (2 First Rest Delimiter Result)
  then show ?case by (cases "split_fields Delimiter Rest") auto
next
  case (3 Delimiter Current Result)
  then show ?case by (simp add: StringT_size_nonzero)
qed

lemma SplitStringT_eq:
  "length s < 2 ^ 32 \<Longrightarrow> SplitStringT s d = Some (filter (\<lambda>f. f \<noteq> []) (split_fields d s))"
  by (cases "split_fields d s") (simp_all add: SplitStringT_def SplitStringImpl_eq)

text \<open>
  C22. \<open>SplitStringT\<close> yields the non-empty fields of the string between delimiters, in order: no
  leading, trailing or repeated delimiter gives an empty field.
\<close>

theorem SplitStringT_spec:
  assumes "length s < 2 ^ 32"
  shows "SplitStringT s d = Some (filter (\<lambda>f. f \<noteq> []) (split_fields d s))"
  using assms by (rule SplitStringT_eq)

theorem SplitStringT_spec_witness:
  "SplitStringT ''/chain//db'' CHR ''/'' = Some [''chain'', ''db'']"
  using SplitStringT_spec [of "''/chain//db''" "CHR ''/''"] by simp

fun join :: "char \<Rightarrow> string list \<Rightarrow> string" where
  "join d [] = []"
| "join d [f] = f"
| "join d (f # g # fs) = f @ d # join d (g # fs)"

lemma split_fields_append: "d \<notin> set f \<Longrightarrow> split_fields d (f @ s) = (f @ hd (split_fields d s)) # tl (split_fields d s)"
  by (induction f) auto

lemma split_fields_join: "\<forall>f \<in> set fs. d \<notin> set f \<Longrightarrow> fs \<noteq> [] \<Longrightarrow> split_fields d (join d fs) = fs"
proof (induction d fs rule: join.induct)
  case (2 d f)
  then show ?case using split_fields_append [of d f "[]"] by simp
qed (auto simp: split_fields_append)

lemma split_join:
  assumes "\<forall>f \<in> set fs. f \<noteq> [] \<and> d \<notin> set f" and "length (join d fs) < 2 ^ 32"
  shows "SplitStringT (join d fs) d = Some fs"
proof (cases "fs = []")
  case True
  then show ?thesis using assms by (simp add: SplitStringT_def StringT_size_def)
next
  case False
  then have "split_fields d (join d fs) = fs" using assms by (intro split_fields_join) auto
  moreover have "filter (\<lambda>f. f \<noteq> []) fs = fs" using assms by (intro filter_True) auto
  ultimately show ?thesis
    using assms by (simp add: SplitStringT_eq)
qed

lemma list_all_zip_eq:
  "length xs = length ys \<Longrightarrow> list_all (\<lambda>(c, d). c = d) (zip xs ys) \<longleftrightarrow> xs = ys"
  by (induction xs ys rule: list_induct2) auto

text \<open>Two string types compare equal exactly when they are the same type.\<close>

lemma StringT_eq_iff [simp]: "StringT_eq s t \<longleftrightarrow> s = t"
  by (auto simp: StringT_eq_def list_all_zip_eq)

lemma StringT_neq_iff [simp]: "StringT_neq s t \<longleftrightarrow> s \<noteq> t"
  by (simp add: StringT_neq_def)

lemma tycat_eq: "tycat ss = (if ss = [] then None else Some (concat ss))"
  by (induction ss rule: tycat.induct) auto

end
