(* ===== verification/Api_Match.thy ===== *)
theory Api_Match
  imports String_T "HOL-Library.Sublist"
begin

text \<open>
  API queries, from \<open>Infra/ApiManager.hpp\<close>: matching a query like \<open>wallet/keys\<close> against the API
  demarcations of a module, and the selection that \<open>ADD_STATIC_API_ALLOCATOR\<close> makes from the matches.
  All of it happens at compile time, so a value \<open>None\<close> is a program that does not compile. A
  demarcation is a record of its categorization, its name, the types of its arguments and its method.
\<close>

section \<open>Matching\<close>

record ('a, 'm) api_demarcation =
  Categorization :: "string list"
  Name :: string
  ArgumentTypes :: "'a list"
  Method :: 'm

text \<open>\<open>CategorizationsMatch\<close>; \<open>sizeof...\<close> is the length of a pack.\<close>

definition same_strings :: "string list \<Rightarrow> string list \<Rightarrow> bool" where
  "same_strings C1 C2 \<longleftrightarrow> list_all (\<lambda>(c1, c2). StringT_eq c1 c2) (zip C1 C2)"

lemma tl_slice_prefix:
  "length L < 2 ^ 64 \<Longrightarrow> n \<le> length L \<Longrightarrow> tl_slice L 0 (of_nat n) = Some (take n L)"
  using slice_impl_from_zero [of "[]" L "of_nat n"] by (simp add: tl_slice_def unat_of_nat)

lemma tl_slice_length: "tl_slice L 0 (of_nat n) = Some L' \<Longrightarrow> length L' \<le> n"
  using slice_impl_from_zero [of "[]" L "of_nat n"]
  by (auto simp: tl_slice_def unat_of_nat split: if_splits)

function CategorizationsMatch :: "string list \<Rightarrow> string list \<Rightarrow> bool option" where
  "CategorizationsMatch C1 C2 =
     (if length C1 = length C2 then Some (same_strings C1 C2)
      else if length C1 < length C2 then
        (case tl_slice C2 0 (of_nat (length C1)) of
           None \<Rightarrow> None
         | Some C \<Rightarrow> CategorizationsMatch C1 C)
      else Some False)"
  by auto
termination
proof (relation "measure (\<lambda>(C1, C2). length C2)")
  fix C1 C2 C :: "string list"
  assume "length C1 < length C2" "tl_slice C2 0 (of_nat (length C1)) = Some C"
  then show "((C1, C), C1, C2) \<in> measure (\<lambda>(C1, C2). length C2)"
    using tl_slice_length [of C2 "length C1" C] by simp
qed simp

declare CategorizationsMatch.simps [simp del]

text \<open>The two filters, over the split query.\<close>

definition filterExact :: "string list \<Rightarrow> ('a, 'm) api_demarcation \<Rightarrow> bool option" where
  "filterExact Query D =
     Option.bind (tl_slice Query 0 (tl_length Query - 1)) (\<lambda>C.
     Option.bind (CategorizationsMatch C (Categorization D)) (\<lambda>match.
     Option.bind (tl_last Query) (\<lambda>n. Some (match \<and> StringT_eq n (Name D)))))"

definition filterInexact :: "string list \<Rightarrow> ('a, 'm) api_demarcation \<Rightarrow> bool option" where
  "filterInexact Query D = CategorizationsMatch Query (Categorization D)"

text \<open>\<open>filter\<close> with a predicate that may not compile: it is instantiated for every element.\<close>

definition filter_defined :: "'a list \<Rightarrow> ('a \<Rightarrow> bool option) \<Rightarrow> 'a list option" where
  "filter_defined L F =
     (if list_all (\<lambda>x. F x \<noteq> None) L then Some (tl_filter L (\<lambda>x. F x = Some True)) else None)"

record 'd matches =
  ExactMatches :: "'d list"
  InexactMatches :: "'d list"

definition FilterDemarcations ::
  "string list \<Rightarrow> ('a, 'm) api_demarcation list \<Rightarrow> ('a, 'm) api_demarcation matches option" where
  "FilterDemarcations Query Ds =
     Option.bind (filter_defined Ds (filterExact Query)) (\<lambda>exact.
     Option.bind (filter_defined Ds (filterInexact Query)) (\<lambda>inexact.
       Some \<lparr>ExactMatches = exact, InexactMatches = inexact\<rparr>))"

definition FindMatchingAdvertisements ::
  "('a, 'm) api_demarcation list \<Rightarrow> string \<Rightarrow> ('a, 'm) api_demarcation matches option" where
  "FindMatchingAdvertisements Ds Query =
     Option.bind (SplitStringT Query CHR ''/'') (\<lambda>SplitQuery.
       if tl_length SplitQuery = 0 then Some \<lparr>ExactMatches = [], InexactMatches = Ds\<rparr>
       else FilterDemarcations SplitQuery Ds)"

text \<open>The body of \<open>allocateApi\<close> up to the invocation: the demarcation it calls.\<close>

definition allocateApi :: "('a, 'm) api_demarcation list \<Rightarrow> string \<Rightarrow> ('a, 'm) api_demarcation option" where
  "allocateApi Advertisements ApiQuery =
     Option.bind (FindMatchingAdvertisements Advertisements ApiQuery) (\<lambda>Results.
       if tl_length (ExactMatches Results) = 1 \<and> tl_length (InexactMatches Results) = 0 then
         Option.bind (tl_first (ExactMatches Results)) (\<lambda>D.
           if tl_length (ArgumentTypes D) = 0 then Some D else None)
       else None)"

section \<open>What a query selects\<close>

lemma CategorizationsMatch_prefix:
  assumes "length C2 < 2 ^ 64"
  shows "CategorizationsMatch C1 C2 = Some (prefix C1 C2)"
proof -
  have same: "CategorizationsMatch C1 C = Some (C1 = C)" if "length C1 = length C" for C
    using that by (simp add: CategorizationsMatch.simps same_strings_def list_all_zip_eq)
  show ?thesis
  proof (cases "length C1" "length C2" rule: linorder_cases)
    case less
    then have "CategorizationsMatch C1 C2 = CategorizationsMatch C1 (take (length C1) C2)"
      using assms by (subst CategorizationsMatch.simps) (simp add: tl_slice_prefix)
    also have "\<dots> = Some (C1 = take (length C1) C2)" using less by (intro same) simp
    finally show ?thesis by (simp add: prefix_def) (metis append_eq_conv_conj)
  next
    case equal
    then show ?thesis using same [of C2] by (auto simp: prefix_def)
  next
    case greater
    then show ?thesis
      by (auto simp: CategorizationsMatch.simps dest: prefix_length_le)
  qed
qed

definition small_demarcations :: "('a, 'm) api_demarcation list \<Rightarrow> bool" where
  "small_demarcations Ds \<longleftrightarrow> length Ds < 2 ^ 64 \<and>
     list_all (\<lambda>D. length (Categorization D) < 2 ^ 64 \<and> length (ArgumentTypes D) < 2 ^ 64) Ds"

lemma filterExact_eq:
  assumes "Query \<noteq> []" "length Query < 2 ^ 64" "length (Categorization D) < 2 ^ 64"
  shows "filterExact Query D = Some (prefix (butlast Query) (Categorization D) \<and> last Query = Name D)"
proof -
  have "tl_length Query - 1 = of_nat (length Query - 1)"
    using assms(1) by (cases Query) simp_all
  then have "tl_slice Query 0 (tl_length Query - 1) = Some (butlast Query)"
    using assms(2) by (simp add: tl_slice_prefix butlast_conv_take)
  with assms show ?thesis
    by (simp add: filterExact_def CategorizationsMatch_prefix tl_last_eq)
qed

lemma filter_defined_eq:
  "\<forall>x \<in> set L. F x = Some (G x) \<Longrightarrow> filter_defined L F = Some (filter G L)"
  by (auto simp: filter_defined_def list_all_iff intro: filter_cong)

lemma split_fields_length: "length (split_fields d s) \<le> Suc (length s)"
proof (induction s)
  case (Cons c s)
  then show ?case by (cases "split_fields d s") auto
qed simp

lemma matches_of_query:
  assumes "length Query < 2 ^ 32" "small_demarcations Ds"
    and "parts = filter (\<lambda>f. f \<noteq> []) (split_fields CHR ''/'' Query)"
  shows "FindMatchingAdvertisements Ds Query = Some (if parts = [] then \<lparr>ExactMatches = [], InexactMatches = Ds\<rparr>
    else \<lparr>ExactMatches = filter (\<lambda>D. prefix (butlast parts) (Categorization D) \<and> last parts = Name D) Ds,
          InexactMatches = filter (\<lambda>D. prefix parts (Categorization D)) Ds\<rparr>)"
proof -
  have split: "SplitStringT Query CHR ''/'' = Some parts"
    using SplitStringT_eq [OF assms(1)] assms(3) by simp
  have "length parts \<le> length (split_fields CHR ''/'' Query)" using assms(3) by simp
  then have len: "length parts < 2 ^ 64"
    using split_fields_length [of "CHR ''/''" Query] assms(1) by simp
  then have empty: "(of_nat (length parts) :: size_t) = 0 \<longleftrightarrow> parts = []"
    by (simp add: word_unat_eq_iff unat_of_nat)
  have "filter_defined Ds (filterInexact parts) = Some (filter (\<lambda>D. prefix parts (Categorization D)) Ds)"
    using assms(2) by (intro filter_defined_eq)
      (auto simp: filterInexact_def CategorizationsMatch_prefix small_demarcations_def list_all_iff)
  moreover have "filter_defined Ds (filterExact parts) =
      Some (filter (\<lambda>D. prefix (butlast parts) (Categorization D) \<and> last parts = Name D) Ds)" if "parts \<noteq> []"
    using assms(2) that len by (intro filter_defined_eq)
      (auto simp: filterExact_eq small_demarcations_def list_all_iff)
  ultimately show ?thesis
    by (simp add: FindMatchingAdvertisements_def split empty FilterDemarcations_def)
qed

text \<open>
  C31. What a query matches: the demarcations whose name is the query's last part and whose
  categorization begins with the parts before it match exactly; those whose categorization begins with
  the whole query match inexactly; a query without parts matches everything inexactly. Empty parts, and
  so repeated, leading and trailing slashes, make no difference.
\<close>

theorem FindMatchingAdvertisements_spec:
  assumes "length Query < 2 ^ 32" and "small_demarcations Ds"
    and "parts = filter (\<lambda>f. f \<noteq> []) (split_fields CHR ''/'' Query)"
  shows "FindMatchingAdvertisements Ds Query = Some (if parts = [] then \<lparr>ExactMatches = [], InexactMatches = Ds\<rparr>
    else \<lparr>ExactMatches = filter (\<lambda>D. prefix (butlast parts) (Categorization D) \<and> last parts = Name D) Ds,
          InexactMatches = filter (\<lambda>D. prefix parts (Categorization D)) Ds\<rparr>)"
  using assms by (rule matches_of_query)

definition sample_api :: "string list \<Rightarrow> string \<Rightarrow> (string, nat) api_demarcation" where
  "sample_api C n = \<lparr>Categorization = C, Name = n, ArgumentTypes = [], Method = length n\<rparr>"

definition sample_apis :: "(string, nat) api_demarcation list" where
  "sample_apis = [sample_api [''chain''] ''blocks'', sample_api [''wallet'', ''keys''] ''export'',
     sample_api [''wallet''] ''keys'']"

lemma sample_apis_small: "small_demarcations sample_apis"
  by (simp add: small_demarcations_def sample_apis_def sample_api_def)

theorem FindMatchingAdvertisements_spec_witness:
  "FindMatchingAdvertisements sample_apis ''/wallet//keys'' =
     Some \<lparr>ExactMatches = [sample_api [''wallet''] ''keys''],
           InexactMatches = [sample_api [''wallet'', ''keys''] ''export'']\<rparr>"
proof -
  have "[''wallet'', ''keys''] = filter (\<lambda>f. f \<noteq> []) (split_fields CHR ''/'' ''/wallet//keys'')" by simp
  from FindMatchingAdvertisements_spec [OF _ sample_apis_small this] show ?thesis
    by (simp add: sample_apis_def sample_api_def)
qed

text \<open>
  An API can be allocated under its full name: if the categories and the name are well formed, no
  other API has the same name below the same categories, none is categorized under the name, and the
  allocator takes no arguments, then the query that joins categories and name by slashes selects it.
\<close>

lemma allocateApi_full_name:
  assumes "Ds = before @ D # after" and "small_demarcations Ds"
    and "\<forall>f \<in> set (Categorization D @ [Name D]). f \<noteq> [] \<and> CHR ''/'' \<notin> set f"
    and "length (join CHR ''/'' (Categorization D @ [Name D])) < 2 ^ 32"
    and "\<forall>E \<in> set before \<union> set after. \<not> (prefix (Categorization D) (Categorization E) \<and> Name E = Name D)"
    and "\<forall>E \<in> set Ds. \<not> prefix (Categorization D @ [Name D]) (Categorization E)"
    and "ArgumentTypes D = []"
  shows "allocateApi Ds (join CHR ''/'' (Categorization D @ [Name D])) = Some D"
proof -
  let ?parts = "Categorization D @ [Name D]"
  have "SplitStringT (join CHR ''/'' ?parts) CHR ''/'' = Some ?parts"
    using assms(3,4) by (rule split_join)
  then have "?parts = filter (\<lambda>f. f \<noteq> []) (split_fields CHR ''/'' (join CHR ''/'' ?parts))"
    using SplitStringT_eq [OF assms(4)] by simp
  from matches_of_query [OF assms(4,2) this]
  have "FindMatchingAdvertisements Ds (join CHR ''/'' ?parts) =
      Some \<lparr>ExactMatches = filter (\<lambda>E. prefix (Categorization D) (Categorization E) \<and> Name D = Name E) Ds,
            InexactMatches = filter (\<lambda>E. prefix ?parts (Categorization E)) Ds\<rparr>"
    by simp
  moreover have "filter (\<lambda>E. prefix ?parts (Categorization E)) Ds = []"
    using assms(6) by (simp add: filter_empty_conv)
  moreover have "filter (\<lambda>E. prefix (Categorization D) (Categorization E) \<and> Name D = Name E) Ds = [D]"
  proof -
    have "filter (\<lambda>E. prefix (Categorization D) (Categorization E) \<and> Name D = Name E) Es = []"
      if "set Es \<subseteq> set before \<union> set after" for Es
      using that assms(5) by (fastforce simp: filter_empty_conv)
    then show ?thesis by (simp add: assms(1))
  qed
  ultimately show ?thesis using assms(7) by (simp add: allocateApi_def tl_first_eq)
qed

end
