(* ===== verification/Module_Tree.thy ===== *)
theory Module_Tree
  imports Api_Match
begin

text \<open>
  Demarcated modules, from \<open>Infra/Infra.hpp\<close>, \<open>Infra/Modular.hpp\<close> and the map-style lists of
  \<open>Infra/TypeList.hpp\<close>: looking up a class's DMarc, walking the tree of submodules that the DMarcs
  describe, collecting the modules and the APIs they advertise, and following a path of getters. The
  types involved are the data type \<open>infra_type\<close>; the member types \<open>T::DMarc\<close> of the program's classes are
  the argument \<open>env\<close>. An ill-formed instantiation is \<open>None\<close>, and so is one that needs a deeper
  recursion than the compiler's limit on nested instantiations, the number \<open>fuel\<close>.
\<close>

section \<open>Types\<close>

datatype cpp_type = Class string | Pointer cpp_type | Reference cpp_type | Const cpp_type

record method_demarcation =
  GetterClass :: string
  ReturnType :: cpp_type
  MethodArguments :: "cpp_type list"
  MethodName :: string

datatype infra_type =
    Plain cpp_type
  | Tag string
  | Demarcation method_demarcation
  | ApiDemarcation "(cpp_type, method_demarcation) api_demarcation"
  | TypeList "infra_type list"
  | ModuleAdvertisedApis cpp_type "infra_type list" "infra_type list"

text \<open>The type transformations of \<open>ModuleType\<close>: \<open>std::decay_t\<close> of a class or pointer type, then
  \<open>std::remove_pointer_t\<close>.\<close>

fun remove_reference :: "cpp_type \<Rightarrow> cpp_type" where
  "remove_reference (Reference T) = T"
| "remove_reference T = T"

fun remove_cv :: "cpp_type \<Rightarrow> cpp_type" where
  "remove_cv (Const T) = T"
| "remove_cv T = T"

fun remove_pointer :: "cpp_type \<Rightarrow> cpp_type" where
  "remove_pointer (Pointer T) = T"
| "remove_pointer (Const (Pointer T)) = T"
| "remove_pointer T = T"

definition decay :: "cpp_type \<Rightarrow> cpp_type" where
  "decay T = remove_cv (remove_reference T)"

definition ModuleType :: "cpp_type \<Rightarrow> cpp_type" where
  "ModuleType T = remove_pointer (decay T)"

section \<open>Map-style lists\<close>

fun transformToKey :: "infra_type \<Rightarrow> infra_type option" where
  "transformToKey (TypeList (Key # Rest)) = Some Key"
| "transformToKey _ = None"

fun transformToValue :: "infra_type \<Rightarrow> infra_type option" where
  "transformToValue (TypeList (Key # Value # Rest)) = Some Value"
| "transformToValue _ = None"

definition Map_Keys :: "infra_type \<Rightarrow> infra_type list option" where
  "Map_Keys M = (case M of TypeList es \<Rightarrow> tl_transform es transformToKey | _ \<Rightarrow> None)"

definition Map_Values :: "infra_type \<Rightarrow> infra_type list option" where
  "Map_Values M = (case M of TypeList es \<Rightarrow> tl_transform es transformToValue | _ \<Rightarrow> None)"

text \<open>\<open>IsValid\<close> is false for a type that is no list. For a list with an element that has no key or
  value, the body of \<open>transform\<close> fails to instantiate, outside of what \<open>void_t\<close> can catch.\<close>

definition Map_IsValid :: "infra_type \<Rightarrow> bool option" where
  "Map_IsValid M =
     (case M of
        TypeList es \<Rightarrow> if Map_Keys M \<noteq> None \<and> Map_Values M \<noteq> None then Some True else None
      | _ \<Rightarrow> Some False)"

definition Map_Contains :: "infra_type \<Rightarrow> infra_type \<Rightarrow> bool option" where
  "Map_Contains M Key =
     Option.bind (Map_IsValid M) (\<lambda>valid.
     Option.bind (Map_Keys M) (\<lambda>Keys. Some (valid \<and> indexOf Keys Key \<noteq> -1)))"

definition Map_Lookup :: "infra_type \<Rightarrow> infra_type \<Rightarrow> infra_type \<Rightarrow> infra_type option" where
  "Map_Lookup M Key Default =
     Option.bind (Map_IsValid M) (\<lambda>valid.
     Option.bind (Map_Contains M Key) (\<lambda>found.
       if valid \<and> found then
         Option.bind (Map_Keys M) (\<lambda>Keys.
         Option.bind (Map_Values M) (\<lambda>Values.
         Option.bind (tl_at Values (word_of_int (indexOf Keys Key))) (\<lambda>Value.
           Some (if indexOf Keys Key = -1 then Default else Value))))
       else Some Default))"

section \<open>DMarcs\<close>

text \<open>\<open>ExtractTypeIfPresent\<close>: the extracted type, if any, and the members \<open>Type\<close> and \<open>Found\<close>.\<close>

definition ExtractTypeIfPresent :: "infra_type option \<Rightarrow> infra_type \<Rightarrow> infra_type \<times> bool" where
  "ExtractTypeIfPresent extract Default = (case extract of None \<Rightarrow> (Default, False) | Some T \<Rightarrow> (T, True))"

text \<open>\<open>T::DMarc\<close>: only a class, const or not, has members.\<close>

definition member_DMarc :: "(string \<Rightarrow> infra_type option) \<Rightarrow> cpp_type \<Rightarrow> infra_type option" where
  "member_DMarc env T = (case T of Class c \<Rightarrow> env c | Const (Class c) \<Rightarrow> env c | _ \<Rightarrow> None)"

definition DMarcFor :: "(string \<Rightarrow> infra_type option) \<Rightarrow> cpp_type \<Rightarrow> infra_type \<times> bool" where
  "DMarcFor env T = ExtractTypeIfPresent (member_DMarc env T) (TypeList [])"

definition DMarcTag :: "(string \<Rightarrow> infra_type option) \<Rightarrow> cpp_type \<Rightarrow> string \<Rightarrow> infra_type option" where
  "DMarcTag env T t = Map_Lookup (fst (DMarcFor env T)) (Tag t) (TypeList [])"

text \<open>An \<open>ApiDemarcation\<close> derives from its method demarcation.\<close>

fun method_of :: "infra_type \<Rightarrow> method_demarcation option" where
  "method_of (Demarcation m) = Some m"
| "method_of (ApiDemarcation a) = Some (Method a)"
| "method_of _ = None"

fun list_items :: "infra_type \<Rightarrow> infra_type list option" where
  "list_items (TypeList Ts) = Some Ts"
| "list_items _ = None"

section \<open>Walking the module tree\<close>

type_synonym module_path = "infra_type list"

type_synonym 's accumulator = "cpp_type \<Rightarrow> module_path \<Rightarrow> 's \<Rightarrow> 's option"

primrec WalkImpl ::
  "(string \<Rightarrow> infra_type option) \<Rightarrow> 's accumulator \<Rightarrow> nat \<Rightarrow> cpp_type \<Rightarrow> module_path \<Rightarrow> 's \<Rightarrow> 's option" where
  "WalkImpl env Accumulator 0 Module Path OldState = None"
| "WalkImpl env Accumulator (Suc fuel) Module Path OldState =
     Option.bind (Accumulator Module Path OldState) (\<lambda>StateAfterModule.
     Option.bind (Option.bind (DMarcTag env Module ''SubmoduleTag'') list_items) (\<lambda>Submodules.
       tl_reduce Submodules (\<lambda>D Reduction.
         Option.bind (method_of D) (\<lambda>m.
         Option.bind (tl_append Path D) (\<lambda>NewPath.
           WalkImpl env Accumulator fuel (ModuleType (ReturnType m)) NewPath Reduction))) StateAfterModule))"

text \<open>The state of an accumulator before the first module: an empty list for every accumulator that does
  not specialize \<open>AccumulatorEmptyState_S\<close>, and for the one that does.\<close>

definition AccumulatorEmptyState :: "infra_type list" where
  "AccumulatorEmptyState = []"

definition WalkModuleTree ::
  "(string \<Rightarrow> infra_type option) \<Rightarrow> 's accumulator \<Rightarrow> 's \<Rightarrow> nat \<Rightarrow> cpp_type \<Rightarrow> 's option" where
  "WalkModuleTree env Accumulator EmptyState fuel RootModule =
     WalkImpl env Accumulator fuel RootModule [] EmptyState"

definition ModuleListAccumulator :: "infra_type list accumulator" where
  "ModuleListAccumulator Submodule Path State = tl_append State (TypeList [Plain Submodule, TypeList Path])"

definition ApiAdvertisementAccumulator :: "(string \<Rightarrow> infra_type option) \<Rightarrow> infra_type list accumulator" where
  "ApiAdvertisementAccumulator env Module Path State =
     Option.bind (Option.bind (DMarcTag env Module ''ApiTag'') list_items) (\<lambda>Advertisements.
     Option.bind (tl_append State (ModuleAdvertisedApis Module Path Advertisements)) (\<lambda>Extended.
       Some (if tl_length Advertisements \<noteq> 0 then Extended else State)))"

text \<open>\<open>FetchSubmodule\<close>, typed: the type that it returns for a root expression of a type. \<open>Invoke\<close> takes
  a non-const reference to the getter's class, and \<open>return trunk\<close> with a return type \<open>auto\<close> decays.\<close>

fun FetchSubmodule :: "cpp_type \<Rightarrow> method_demarcation list \<Rightarrow> cpp_type option" where
  "FetchSubmodule root [] = None"
| "FetchSubmodule root (g # Getters) =
     (if remove_reference root = Class (GetterClass g) then
        (if Getters = [] then Some (decay (ReturnType g)) else FetchSubmodule (ReturnType g) Getters)
      else None)"

section \<open>Lookups\<close>

text \<open>The entries of a well-formed map: each element has a key and a value.\<close>

fun map_entry :: "infra_type \<Rightarrow> (infra_type \<times> infra_type) option" where
  "map_entry (TypeList (Key # Value # Rest)) = Some (Key, Value)"
| "map_entry _ = None"

lemma map_entry_parts:
  "map_entry e = Some (k, v) \<Longrightarrow> transformToKey e = Some k \<and> transformToValue e = Some v"
  by (cases e rule: map_entry.cases) auto

lemma map_entry_None: "map_entry e = None \<longleftrightarrow> transformToKey e = None \<or> transformToValue e = None"
  by (cases e rule: map_entry.cases) auto

lemma map_of_indexOf:
  "map_of ps k = (if k \<in> set (map fst ps) then Some (map snd ps ! nat (indexOf (map fst ps) k)) else None)"
proof (induction ps)
  case (Cons p ps)
  show ?case
  proof (cases "fst p = k")
    case False
    have "k \<in> set (map fst ps) \<Longrightarrow> nat (indexOf (map fst ps) k + 1) = Suc (nat (indexOf (map fst ps) k))"
    proof -
      assume "k \<in> set (map fst ps)"
      then have "0 \<le> indexOf (map fst ps) k" by (simp only: indexOf_ge_0)
      then show ?thesis by (simp only: nat_add_distrib [OF _ zero_le_one])
    qed
    with False Cons show ?thesis by (cases p) (auto simp: Let_def)
  qed (cases p, auto simp: Let_def)
qed simp

lemma Map_Lookup_eq:
  assumes "length es < 2 ^ 63"
  shows "Map_Lookup (TypeList es) K D =
    (if \<exists>e \<in> set es. map_entry e = None then None
     else Some (case map_of (map (the \<circ> map_entry) es) K of None \<Rightarrow> D | Some v \<Rightarrow> v))"
proof (cases "\<exists>e \<in> set es. map_entry e = None")
  case True
  then have "\<exists>e \<in> set es. transformToKey e = None \<or> transformToValue e = None"
    by (simp add: map_entry_None)
  with True show ?thesis
    by (auto simp: Map_Lookup_def Map_IsValid_def Map_Keys_def Map_Values_def tl_transform_eq)
next
  case False
  let ?ps = "map (the \<circ> map_entry) es"
  have parts: "transformToKey e = Some (fst (the (map_entry e))) \<and> transformToValue e = Some (snd (the (map_entry e)))"
    if "e \<in> set es" for e
    using False that map_entry_parts [of e] by (cases "map_entry e") auto
  have keys: "Map_Keys (TypeList es) = Some (map fst ?ps)"
    using parts by (auto simp: Map_Keys_def tl_transform_eq)
  have vals: "Map_Values (TypeList es) = Some (map snd ?ps)"
    using parts by (auto simp: Map_Values_def tl_transform_eq)
  have valid: "Map_IsValid (TypeList es) = Some True" by (simp add: Map_IsValid_def keys vals)
  show ?thesis
  proof (cases "K \<in> set (map fst ?ps)")
    case True
    have "unat (word_of_int (indexOf (map fst ?ps) K) :: size_t) = nat (indexOf (map fst ?ps) K)"
      by (rule unat_indexOf [OF True]) (use assms in simp)
    moreover have "nat (indexOf (map fst ?ps) K) < length es"
      using indexOf_nth [OF True] by simp
    ultimately have "tl_at (map snd ?ps) (word_of_int (indexOf (map fst ?ps) K)) = map_of ?ps K"
      using True by (simp only: tl_at_eq map_of_indexOf [of ?ps K] length_map if_True)
    moreover have "map_of ?ps K = Some (map snd ?ps ! nat (indexOf (map fst ?ps) K))"
      using True by (simp only: map_of_indexOf [of ?ps K] if_True)
    ultimately show ?thesis
      using False True
      by (simp only: Map_Lookup_def Map_Contains_def keys vals valid indexOf_neg) simp
  next
    case nokey: False
    then have "map_of ?ps K = None" by (simp only: map_of_indexOf [of ?ps K] if_False)
    with False nokey show ?thesis
      by (simp only: Map_Lookup_def Map_Contains_def keys vals valid indexOf_neg) simp
  qed
qed

text \<open>
  Looking up a key in a map-style list gives the value of the first element with that key, or the
  default; a list with an element that is no list of at least two types does not compile, whatever the
  key, although \<open>IsValid\<close> is there to reject it.
\<close>

lemma Map_Lookup_spec:
  assumes "length es < 2 ^ 63"
  shows "Map_Lookup (TypeList es) K D =
      (if \<exists>e \<in> set es. map_entry e = None then None
       else Some (case map_of (map (the \<circ> map_entry) es) K of None \<Rightarrow> D | Some v \<Rightarrow> v)) \<and>
    Map_IsValid (TypeList es) = (if \<exists>e \<in> set es. map_entry e = None then None else Some True)"
  using Map_Lookup_eq [OF assms]
  by (auto simp: Map_IsValid_def Map_Keys_def Map_Values_def tl_transform_eq map_entry_None)

section \<open>The modules of a tree\<close>

text \<open>The modules below a module in pre-order, each with its path.\<close>

primrec tree_modules ::
  "(string \<Rightarrow> infra_type option) \<Rightarrow> nat \<Rightarrow> cpp_type \<Rightarrow> module_path \<Rightarrow> (cpp_type \<times> module_path) list option" where
  "tree_modules env 0 M p = None"
| "tree_modules env (Suc fuel) M p =
     Option.bind (Option.bind (DMarcTag env M ''SubmoduleTag'') list_items) (\<lambda>Ds.
       map_option (\<lambda>ms. (M, p) # concat ms)
         (those (map (\<lambda>D. Option.bind (method_of D) (\<lambda>m. tree_modules env fuel (ModuleType (ReturnType m)) (p @ [D]))) Ds)))"

definition collect :: "('m \<Rightarrow> 'x list option) \<Rightarrow> 'm list \<Rightarrow> 'x list option" where
  "collect items ms = map_option concat (those (map items ms))"

lemma collect_Nil [simp]: "collect items [] = Some []"
  by (simp add: collect_def)

lemma collect_Cons: "collect items (m # ms) =
    Option.bind (items m) (\<lambda>xs. map_option ((@) xs) (collect items ms))"
  by (cases "items m"; cases "those (map items ms)") (simp_all add: collect_def)

lemma collect_append: "collect items (xs @ ys) =
    Option.bind (collect items xs) (\<lambda>a. map_option ((@) a) (collect items ys))"
proof (induction xs)
  case Nil
  then show ?case by (cases "collect items ys") simp_all
next
  case (Cons x xs)
  then show ?case
    by (cases "items x"; cases "collect items xs"; cases "collect items ys") (simp_all add: collect_Cons)
qed

lemma collect_total: "collect (\<lambda>m. Some (f m)) ms = Some (concat (map f ms))"
  by (induction ms) (simp_all add: collect_Cons)

text \<open>
  The contract between the walk and its accumulators: an accumulator adds to its state, behind what is
  there, what it makes of a module and its path alone, or is ill-formed for that module.
\<close>

locale collector =
  fixes Accumulator :: "cpp_type \<Rightarrow> module_path \<Rightarrow> 'x list \<Rightarrow> 'x list option"
    and items :: "cpp_type \<times> module_path \<Rightarrow> 'x list option"
  assumes accumulates: "Accumulator M p S = map_option ((@) S) (items (M, p))"
begin

lemma reduce_collects:
  assumes "\<And>D R. step D R = Option.bind (f D) (\<lambda>ms. map_option ((@) R) (collect items ms))"
  shows "tl_reduce Ds step S =
    Option.bind (those (map f Ds)) (\<lambda>Ls. map_option ((@) S) (collect items (concat Ls)))"
proof (induction Ds arbitrary: S)
  case (Cons D Ds)
  have D: "step D S = Option.bind (f D) (\<lambda>ms. map_option ((@) S) (collect items ms))" by (rule assms)
  show ?case
  proof (cases "f D")
    case (Some ms)
    then show ?thesis
      by (cases "collect items ms"; cases "those (map f Ds)"; cases "collect items (concat (the (those (map f Ds))))")
        (simp_all add: D Cons.IH collect_append)
  qed (simp add: D)
qed simp

lemma walk_collects:
  "WalkImpl env Accumulator fuel M p S =
     Option.bind (tree_modules env fuel M p) (\<lambda>ms. map_option ((@) S) (collect items ms))"
proof (induction fuel arbitrary: M p S)
  case (Suc fuel)
  let ?f = "\<lambda>D. Option.bind (method_of D) (\<lambda>m. tree_modules env fuel (ModuleType (ReturnType m)) (p @ [D]))"
  let ?step = "\<lambda>D Reduction. Option.bind (method_of D) (\<lambda>m. Option.bind (tl_append p D) (\<lambda>NewPath.
      WalkImpl env Accumulator fuel (ModuleType (ReturnType m)) NewPath Reduction))"
  have step: "?step D R = Option.bind (?f D) (\<lambda>ms. map_option ((@) R) (collect items ms))" for D R
    by (cases "method_of D") (simp_all add: Suc.IH)
  show ?case
  proof (cases "Option.bind (DMarcTag env M ''SubmoduleTag'') list_items")
    case (Some Ds)
    have "WalkImpl env Accumulator (Suc fuel) M p S = Option.bind (Accumulator M p S) (tl_reduce Ds ?step)"
      by (simp only: WalkImpl.simps Some Option.bind.simps)
    also have "\<dots> = Option.bind (items (M, p)) (\<lambda>xs. tl_reduce Ds ?step (S @ xs))"
      by (cases "items (M, p)") (simp_all only: accumulates [of M p S] option.map Option.bind.simps)
    also have "\<dots> = Option.bind (items (M, p)) (\<lambda>xs. Option.bind (those (map ?f Ds))
        (\<lambda>Ls. map_option ((@) (S @ xs)) (collect items (concat Ls))))"
      by (simp only: reduce_collects [of ?step ?f, OF step])
    also have "\<dots> = Option.bind (tree_modules env (Suc fuel) M p) (\<lambda>ms. map_option ((@) S) (collect items ms))"
      unfolding tree_modules.simps Some Option.bind.simps
      by (cases "items (M, p)"; cases "those (map ?f Ds)"; cases "collect items (concat (the (those (map ?f Ds))))")
        (simp_all add: collect_Cons)
    finally show ?thesis .
  next
    case None
    then show ?thesis by (cases "Accumulator M p S") simp_all
  qed
qed simp

end

interpretation module_list: collector ModuleListAccumulator "\<lambda>(M, p). Some [TypeList [Plain M, TypeList p]]"
  by unfold_locales (simp add: ModuleListAccumulator_def)

definition advertised :: "(string \<Rightarrow> infra_type option) \<Rightarrow> cpp_type \<times> module_path \<Rightarrow> infra_type list option" where
  "advertised env = (\<lambda>(M, p). map_option (\<lambda>Ads. if tl_length Ads = 0 then [] else [ModuleAdvertisedApis M p Ads])
     (Option.bind (DMarcTag env M ''ApiTag'') list_items))"

interpretation advertisements: collector "ApiAdvertisementAccumulator env" "advertised env"
proof
  show "ApiAdvertisementAccumulator env M p S = map_option ((@) S) (advertised env (M, p))" for M p S
    by (cases "Option.bind (DMarcTag env M ''ApiTag'') list_items")
      (simp_all add: ApiAdvertisementAccumulator_def advertised_def)
qed

text \<open>The demarcations of the contract node: its two submodules behind pointer-returning getters, and no
  APIs.\<close>

definition Submodules_ContractNode :: "infra_type list" where
  "Submodules_ContractNode =
     [Demarcation \<lparr>GetterClass = ''ContractNode'', ReturnType = Pointer (Class ''ChainHandler''),
        MethodArguments = [], MethodName = ''getChainHandler''\<rparr>,
      Demarcation \<lparr>GetterClass = ''ContractNode'', ReturnType = Pointer (Class ''P2pHandler''),
        MethodArguments = [], MethodName = ''getP2pHandler''\<rparr>]"

definition DMarc_ContractNode :: infra_type where
  "DMarc_ContractNode = TypeList [TypeList [Tag ''ApiTag'', TypeList []],
     TypeList [Tag ''SubmoduleTag'', TypeList Submodules_ContractNode]]"

definition node_env :: "string \<Rightarrow> infra_type option" where
  "node_env c = (if c = ''ContractNode'' then Some DMarc_ContractNode else None)"

text \<open>
  Walking a module tree with \<open>ModuleListAccumulator\<close> lists exactly the modules of the tree in
  pre-order, each with the path of getters that leads to it, and does not compile exactly when some
  demarcation in the tree is malformed or the tree is deeper than the compiler's limit.
\<close>

lemma WalkModuleTree_lists_modules:
  "WalkModuleTree env ModuleListAccumulator [] fuel Root =
     map_option (map (\<lambda>(M, p). TypeList [Plain M, TypeList p])) (tree_modules env fuel Root [])"
  unfolding WalkModuleTree_def module_list.walk_collects
  by (cases "tree_modules env fuel Root []")
    (simp_all add: collect_total case_prod_unfold concat_map_singleton)

text \<open>
  C33. Walking it with \<open>ApiAdvertisementAccumulator\<close> gives one record for every module of the tree that
  advertises any APIs, in the same order, with its path and all its API demarcations.
\<close>

theorem WalkModuleTree_lists_advertisements:
  "WalkModuleTree env (ApiAdvertisementAccumulator env) [] fuel Root =
     Option.bind (tree_modules env fuel Root []) (collect (advertised env))"
  unfolding WalkModuleTree_def advertisements.walk_collects
  by (cases "tree_modules env fuel Root []"; cases "collect (advertised env) (the (tree_modules env fuel Root []))")
    simp_all

text \<open>A program whose demarcations are well formed and whose submodules have smaller rank.\<close>

definition well_demarcated :: "(string \<Rightarrow> infra_type option) \<Rightarrow> (cpp_type \<Rightarrow> nat) \<Rightarrow> bool" where
  "well_demarcated env rank \<longleftrightarrow>
     (\<forall>M. \<exists>Ds. Option.bind (DMarcTag env M ''SubmoduleTag'') list_items = Some Ds \<and>
        list_all (\<lambda>D. case method_of D of None \<Rightarrow> False
                    | Some m \<Rightarrow> rank (ModuleType (ReturnType m)) < rank M) Ds)"

lemma those_Some: "(\<And>x. x \<in> set xs \<Longrightarrow> f x = Some (g x)) \<Longrightarrow> those (map f xs) = Some (map g xs)"
  by (induction xs) auto

lemma tree_modules_limit:
  assumes "well_demarcated env rank"
  shows "\<exists>ms. \<forall>fuel. rank M < fuel \<longrightarrow> tree_modules env fuel M p = Some ms"
proof (induction "rank M" arbitrary: M p rule: less_induct)
  case less
  obtain Ds where Ds: "Option.bind (DMarcTag env M ''SubmoduleTag'') list_items = Some Ds"
    "\<forall>D \<in> set Ds. \<exists>m. method_of D = Some m \<and> rank (ModuleType (ReturnType m)) < rank M"
  proof -
    obtain Ds where Ds: "Option.bind (DMarcTag env M ''SubmoduleTag'') list_items = Some Ds"
      "list_all (\<lambda>D. case method_of D of None \<Rightarrow> False | Some m \<Rightarrow> rank (ModuleType (ReturnType m)) < rank M) Ds"
      using assms unfolding well_demarcated_def by blast
    from Ds(2) have "\<forall>D \<in> set Ds. \<exists>m. method_of D = Some m \<and> rank (ModuleType (ReturnType m)) < rank M"
      by (auto simp: list_all_iff split: option.splits) 
    with Ds(1) show thesis by (rule that)
  qed
  let ?sub = "\<lambda>fuel D. Option.bind (method_of D) (\<lambda>m. tree_modules env fuel (ModuleType (ReturnType m)) (p @ [D]))"
  have "\<forall>D \<in> set Ds. \<exists>ms. \<forall>fuel \<ge> rank M. ?sub fuel D = Some ms"
  proof
    fix D assume "D \<in> set Ds"
    then obtain m where m: "method_of D = Some m" "rank (ModuleType (ReturnType m)) < rank M" using Ds(2) by blast
    from less [OF m(2), of "p @ [D]"] m show "\<exists>ms. \<forall>fuel \<ge> rank M. ?sub fuel D = Some ms"
      by (auto intro: less_le_trans)
  qed
  then obtain g where g: "\<And>D fuel. D \<in> set Ds \<Longrightarrow> rank M \<le> fuel \<Longrightarrow> ?sub fuel D = Some (g D)"
    by metis
  have "tree_modules env (Suc fuel) M p = Some ((M, p) # concat (map g Ds))" if "rank M \<le> fuel" for fuel
    using those_Some [of Ds "?sub fuel" g] g that by (simp add: Ds(1))
  then have "\<forall>fuel. rank M < fuel \<longrightarrow> tree_modules env fuel M p = Some ((M, p) # concat (map g Ds))"
    by (metis Suc_le_eq Suc_le_mono not0_implies_Suc not_less_zero)
  then show ?case by blast
qed

text \<open>
  C32. The walk ends: when every demarcation is well formed and submodules never lead back to the
  modules above them, a recursion limit above the root's rank is enough, the walk lists the root first,
  and raising the limit changes nothing.
\<close>

theorem WalkModuleTree_terminates:
  assumes "well_demarcated env rank"
  shows "\<exists>rest. \<forall>fuel. rank Root < fuel \<longrightarrow>
    WalkModuleTree env ModuleListAccumulator [] fuel Root = Some (TypeList [Plain Root, TypeList []] # rest)"
proof -
  obtain ms where ms: "\<forall>fuel. rank Root < fuel \<longrightarrow> tree_modules env fuel Root [] = Some ms"
    using tree_modules_limit [OF assms] by blast
  then have "tree_modules env (Suc (rank Root)) Root [] = Some ms" by blast
  then obtain rest where "ms = (Root, []) # rest" by (auto simp: bind_eq_Some_iff simp del: bind_eq_Some_conv)
  with ms show ?thesis
    unfolding WalkModuleTree_def module_list.walk_collects
    by (auto simp: collect_total case_prod_unfold)
qed

lemma node_env_lookup:
  "DMarcTag node_env M ''SubmoduleTag'' =
     Some (TypeList (if M = Class ''ContractNode'' \<or> M = Const (Class ''ContractNode'') then Submodules_ContractNode else []))"
proof -
  have "member_DMarc node_env M =
      (if M = Class ''ContractNode'' \<or> M = Const (Class ''ContractNode'') then Some DMarc_ContractNode else None)"
    by (auto simp: member_DMarc_def node_env_def split: cpp_type.split)
  then show ?thesis
    by (simp add: DMarcTag_def DMarcFor_def ExtractTypeIfPresent_def Map_Lookup_eq DMarc_ContractNode_def)
qed

theorem WalkModuleTree_terminates_witness:
  "\<exists>rest. \<forall>fuel. 1 < fuel \<longrightarrow>
    WalkModuleTree node_env ModuleListAccumulator [] fuel (Class ''ContractNode'') =
      Some (TypeList [Plain (Class ''ContractNode''), TypeList []] # rest)"
proof -
  let ?rank = "\<lambda>M. if M = Class ''ContractNode'' \<or> M = Const (Class ''ContractNode'') then 1 else 0 :: nat"
  have "well_demarcated node_env ?rank"
    by (auto simp: well_demarcated_def node_env_lookup Submodules_ContractNode_def ModuleType_def decay_def)
  from WalkModuleTree_terminates [OF this, of "Class ''ContractNode''"] show ?thesis by simp
qed

section \<open>Following a path\<close>

text \<open>A path of getters can be followed exactly when it is not empty and every getter belongs to the
  class that the root, or the getter before it, gives by value or by non-const reference: a getter in
  the middle that returns a pointer, as the walk of the module tree accepts, breaks the path. The result
  is the last getter's return type with reference and const removed, so a returned reference is copied.\<close>

lemma FetchSubmodule_spec:
  "FetchSubmodule root path =
     (if path \<noteq> [] \<and> list_all2 (\<lambda>T g. remove_reference T = Class (GetterClass g)) (root # map ReturnType (butlast path)) path
      then Some (decay (ReturnType (last path))) else None)"
  by (induction root path rule: FetchSubmodule.induct) auto

end

