(* ===== verification/Api_Manager.thy ===== *)
theory Api_Manager
  imports Module_Tree Static_Variant
begin

text \<open>
  The typed interfaces of \<open>Infra/ApiManager.hpp\<close>: which arguments make an \<open>ApiDemarcation\<close>, the checks
  of \<open>FindMatchingAdvertisements\<close> on a list of types, the class \<open>ApiManager\<close> up to the point where its
  instantiation fails. All of it happens at compile time; \<open>None\<close> is a program that does not compile.
\<close>

section \<open>API demarcations\<close>

text \<open>The types that can be template arguments here: compile-time strings, type lists, instances of
  \<open>ApiDemarcation\<close>, and others with the member types \<open>Categorization\<close> and \<open>Name\<close> that they have, if
  any.\<close>

datatype ('a, 'm) template_arg =
    StringT string
  | ListT "('a, 'm) template_arg list"
  | ApiDemarcationT "('a, 'm) template_arg" "('a, 'm) template_arg" "'a list" 'm
  | ClassT string "('a, 'm) template_arg option" "('a, 'm) template_arg option"

fun IsStringT :: "('a, 'm) template_arg \<Rightarrow> bool" where
  "IsStringT (StringT s) = True"
| "IsStringT T = False"

fun IsApiCategorization :: "('a, 'm) template_arg \<Rightarrow> bool" where
  "IsApiCategorization (ListT Categories) = list_all IsStringT Categories"
| "IsApiCategorization C = False"

fun IsApiDemarcation :: "('a, 'm) template_arg \<Rightarrow> bool" where
  "IsApiDemarcation (ApiDemarcationT Cat N args m) = True"
| "IsApiDemarcation C = False"

text \<open>The members \<open>Categorization\<close> and \<open>Name\<close> of a class \<open>ApiDemarcation\<close>: those of the primary template,
  whose static assertions check them, or, for a single string in the place of the categorization, the
  ones that its base class gives it.\<close>

definition ApiDemarcation_primary ::
  "('a, 'm) template_arg \<Rightarrow> ('a, 'm) template_arg \<Rightarrow> (('a, 'm) template_arg \<times> ('a, 'm) template_arg) option" where
  "ApiDemarcation_primary ApiCategorization ApiName =
     (if IsApiCategorization ApiCategorization \<and> IsStringT ApiName then Some (ApiCategorization, ApiName) else None)"

fun ApiDemarcation_members ::
  "('a, 'm) template_arg \<Rightarrow> (('a, 'm) template_arg \<times> ('a, 'm) template_arg) option" where
  "ApiDemarcation_members (ApiDemarcationT (StringT category) N args m) = ApiDemarcation_primary (ListT [StringT category]) N"
| "ApiDemarcation_members (ApiDemarcationT C N args m) = ApiDemarcation_primary C N"
| "ApiDemarcation_members T = None"

text \<open>The string that a compile-time string denotes, and the demarcation that an instance denotes.\<close>

fun the_string :: "('a, 'm) template_arg \<Rightarrow> string" where
  "the_string (StringT s) = s"
| "the_string T = ''''"

fun the_strings :: "('a, 'm) template_arg \<Rightarrow> string list" where
  "the_strings (ListT Ts) = map the_string Ts"
| "the_strings T = []"

text \<open>What the lookup of the members \<open>Categorization\<close> and \<open>Name\<close> gives in any type, and what the matching
  reads of a type: these strings. \<open>Method\<close> remembers the type.\<close>

fun type_members ::
  "('a, 'm) template_arg \<Rightarrow> (('a, 'm) template_arg \<times> ('a, 'm) template_arg) option" where
  "type_members (ClassT c (Some C) (Some N)) = Some (C, N)"
| "type_members D = ApiDemarcation_members D"

definition as_demarcation :: "('a, 'm) template_arg \<Rightarrow> ('a, ('a, 'm) template_arg) api_demarcation" where
  "as_demarcation D = (case type_members D of
     None \<Rightarrow> \<lparr>Categorization = [], Name = [], ArgumentTypes = [], Method = D\<rparr>
   | Some (C, N) \<Rightarrow> \<lparr>Categorization = the_strings C, Name = the_string N, ArgumentTypes = [], Method = D\<rparr>)"

text \<open>\<open>FindMatchingAdvertisements\<close> on types: its static assertions, then the matching. \<open>ForEach\<close>
  instantiates its callable for each element of the list, and the callable looks at no more of a type
  than its two members.\<close>

fun IsTypeList :: "('a, 'm) template_arg \<Rightarrow> bool" where
  "IsTypeList (ListT Ts) = True"
| "IsTypeList T = False"

fun list_elements :: "('a, 'm) template_arg \<Rightarrow> ('a, 'm) template_arg list" where
  "list_elements (ListT Ts) = Ts"
| "list_elements T = []"

definition FindMatchingAdvertisements_T ::
  "('a, 'm) template_arg \<Rightarrow> ('a, 'm) template_arg \<Rightarrow> ('a, 'm) template_arg matches option" where
  "FindMatchingAdvertisements_T ApiDemarcations Query =
     (if IsStringT Query \<and> IsTypeList ApiDemarcations \<and> ForEach_compiles (list_elements ApiDemarcations) \<and>
         list_all (\<lambda>D. case type_members D of None \<Rightarrow> False
           | Some (C, N) \<Rightarrow> IsApiCategorization C \<and> IsStringT N) (list_elements ApiDemarcations)
      then map_option (\<lambda>m. \<lparr>ExactMatches = map Method (ExactMatches m), InexactMatches = map Method (InexactMatches m)\<rparr>)
        (FindMatchingAdvertisements (map as_demarcation (list_elements ApiDemarcations)) (the_string Query))
      else None)"

lemma IsStringT_eq: "IsStringT T \<longleftrightarrow> (\<exists>s. T = StringT s)"
  by (cases T) auto

lemma IsApiCategorization_eq: "IsApiCategorization C \<longleftrightarrow> (\<exists>cs. C = ListT (map StringT cs))"
proof (cases C)
  case (ListT Ts)
  have "list_all IsStringT Ts \<longleftrightarrow> (\<exists>cs. Ts = map StringT cs)"
    by (simp add: list_all_iff IsStringT_eq ex_map_conv Ball_def)
  with ListT show ?thesis by simp
qed auto

lemma string_categories: "IsApiCategorization (ListT Ts) \<longleftrightarrow> (\<exists>cs. Ts = map StringT cs)"
  using IsApiCategorization_eq [of "ListT Ts"] by simp

lemma accepted_types:
  "(case type_members D of None \<Rightarrow> False | Some (C, N) \<Rightarrow> IsApiCategorization C \<and> IsStringT N) \<longleftrightarrow>
     (\<exists>C N args m. D = ApiDemarcationT C N args m \<and>
        ((\<exists>c. C = StringT c) \<or> (\<exists>cs. C = ListT (map StringT cs))) \<and> (\<exists>n. N = StringT n)) \<or>
     (\<exists>c cs n. D = ClassT c (Some (ListT (map StringT cs))) (Some (StringT n)))"
proof (cases D)
  case (ApiDemarcationT C N args m)
  have single: "\<exists>cs. [StringT c] = map StringT cs" for c :: string by (rule exI [of _ "[c]"]) simp
  from ApiDemarcationT show ?thesis
    by (cases C) (auto simp: ApiDemarcation_primary_def IsApiCategorization_eq IsStringT_eq single)
next
  case (ClassT c C N)
  then show ?thesis
    by (cases C; cases N) (auto simp: IsApiCategorization_eq IsStringT_eq)
qed auto

lemma Method_as_demarcation [simp]: "Method (as_demarcation D) = D"
  by (auto simp: as_demarcation_def split: option.split)

lemma map_Method_filter: "map Method (filter P (map as_demarcation Ds)) = filter (P \<circ> as_demarcation) Ds"
  by (simp add: filter_map comp_def)

text \<open>
  C35. The types that a query accepts: asking a type list for a query compiles exactly when the query is a
  compile-time string and the list is not empty and has nothing but types with a compile-time string as
  the member \<open>Name\<close> and a list of them as the member \<open>Categorization\<close>: each is an \<open>ApiDemarcation\<close> of a
  string and a string or a list of strings, or a class with members of its own that are such, which the
  check lets in too. What is found are the types of that list, in its order, that match the parts of the
  query.
\<close>

theorem well_typed_queries_compile:
  assumes "small_demarcations (map as_demarcation Ds)"
    and "\<forall>q. Query = StringT q \<longrightarrow> length q < 2 ^ 32"
  shows "(FindMatchingAdvertisements_T (ListT Ds) Query \<noteq> None \<longleftrightarrow>
      (\<exists>q. Query = StringT q) \<and> Ds \<noteq> [] \<and> (\<forall>D \<in> set Ds.
        (\<exists>C N args m. D = ApiDemarcationT C N args m \<and>
           ((\<exists>c. C = StringT c) \<or> (\<exists>cs. C = ListT (map StringT cs))) \<and> (\<exists>n. N = StringT n)) \<or>
        (\<exists>c cs n. D = ClassT c (Some (ListT (map StringT cs))) (Some (StringT n))))) \<and>
    (\<forall>q found. Query = StringT q \<and> FindMatchingAdvertisements_T (ListT Ds) Query = Some found \<longrightarrow>
      (let parts = filter (\<lambda>f. f \<noteq> []) (split_fields CHR ''/'' q) in
        ExactMatches found = filter (\<lambda>D. parts \<noteq> [] \<and> prefix (butlast parts) (Categorization (as_demarcation D)) \<and>
          last parts = Name (as_demarcation D)) Ds \<and>
        InexactMatches found = filter (\<lambda>D. prefix parts (Categorization (as_demarcation D))) Ds))"
proof (cases Query)
  case (StringT q)
  let ?parts = "filter (\<lambda>f. f \<noteq> []) (split_fields CHR ''/'' q)"
  have found: "FindMatchingAdvertisements (map as_demarcation Ds) q = Some (if ?parts = []
      then \<lparr>ExactMatches = [], InexactMatches = map as_demarcation Ds\<rparr>
      else \<lparr>ExactMatches = filter (\<lambda>D. prefix (butlast ?parts) (Categorization D) \<and> last ?parts = Name D) (map as_demarcation Ds),
            InexactMatches = filter (\<lambda>D. prefix ?parts (Categorization D)) (map as_demarcation Ds)\<rparr>)"
    using matches_of_query [OF _ assms(1) refl, of q] assms(2) StringT by blast
  show ?thesis
    unfolding StringT FindMatchingAdvertisements_T_def list_elements.simps accepted_types list_all_iff the_string.simps found
    by (auto simp: ForEach_compiles_def map_Method_filter comp_def Let_def)
qed (simp_all add: FindMatchingAdvertisements_T_def)

definition wallet_key_api :: "(string, nat) template_arg" where
  "wallet_key_api = ApiDemarcationT (StringT ''wallet'') (StringT ''keys'') [] 4"

definition look_alike_api :: "(string, nat) template_arg" where
  "look_alike_api = ClassT ''LookAlike'' (Some (ListT [StringT ''chain''])) (Some (StringT ''blocks''))"

theorem well_typed_queries_compile_witness:
  "(\<exists>found. FindMatchingAdvertisements_T (ListT [wallet_key_api, look_alike_api]) (StringT ''wallet'') = Some found \<and>
     InexactMatches found = [wallet_key_api]) \<and>
   FindMatchingAdvertisements_T (ListT [wallet_key_api, ClassT ''int'' None None]) (StringT ''wallet'') = None \<and>
   FindMatchingAdvertisements_T (ListT []) (StringT ''wallet'' :: (string, nat) template_arg) = None"
proof -
  let ?q = "StringT ''wallet'' :: (string, nat) template_arg" and ?int = "ClassT ''int'' None None :: (string, nat) template_arg"
  have small: "small_demarcations (map as_demarcation [wallet_key_api, look_alike_api])"
    "small_demarcations (map as_demarcation [wallet_key_api, ?int])"
    "small_demarcations (map as_demarcation ([] :: (string, nat) template_arg list))"
    by (simp_all add: small_demarcations_def as_demarcation_def wallet_key_api_def look_alike_api_def
        ApiDemarcation_primary_def)
  have len: "\<forall>q. ?q = StringT q \<longrightarrow> length q < 2 ^ 32" by simp
  have "filter (\<lambda>f. f \<noteq> []) (split_fields CHR ''/'' ''wallet'') = [''wallet'']" by (simp add: split_fields.simps)
  moreover have "Categorization (as_demarcation wallet_key_api) = [''wallet'']"
    "Categorization (as_demarcation look_alike_api) = [''chain'']"
    by (simp_all add: as_demarcation_def wallet_key_api_def look_alike_api_def ApiDemarcation_primary_def)
  moreover have "\<exists>cs. [StringT ''chain''] = (map StringT cs :: (string, nat) template_arg list)"
    by (rule exI [of _ "[''chain'']"]) simp
  ultimately show ?thesis
    using well_typed_queries_compile [OF small(1) len] well_typed_queries_compile [OF small(2) len]
      well_typed_queries_compile [OF small(3) len]
    by (auto simp: Let_def wallet_key_api_def look_alike_api_def)
qed

section \<open>The API manager\<close>

text \<open>\<open>TL::concat\<close> on types: its specializations take lists, two or more of them.\<close>

fun concat_T :: "infra_type list \<Rightarrow> infra_type option" where
  "concat_T [TypeList A, TypeList B] = Some (TypeList (A @ B))"
| "concat_T (TypeList A # TypeList B # T # Ts) = concat_T (TypeList (A @ B) # T # Ts)"
| "concat_T Ts = None"

fun type_name :: "cpp_type \<Rightarrow> string" where
  "type_name (Class c) = c"
| "type_name (Pointer T) = type_name T @ ''*''"
| "type_name (Reference T) = type_name T @ ''&''"
| "type_name (Const T) = type_name T @ '' const''"

text \<open>The class \<open>WalkModuleTree<Module, ApiAdvertisementAccumulator>\<close>, as a type, and its member \<open>Type\<close>.\<close>

definition WalkModuleTree_class :: "cpp_type \<Rightarrow> infra_type" where
  "WalkModuleTree_class Module = Plain (Class (''WalkModuleTree<'' @ type_name Module @ '', ApiAdvertisementAccumulator>''))"

definition WalkModuleTree_Type :: "(string \<Rightarrow> infra_type option) \<Rightarrow> nat \<Rightarrow> cpp_type \<Rightarrow> infra_type option" where
  "WalkModuleTree_Type env fuel Module =
     map_option TypeList (WalkModuleTree env (ApiAdvertisementAccumulator env) AccumulatorEmptyState fuel Module)"

text \<open>The members of \<open>ApiManager<Modules...>::Info\<close>. The alias \<open>AllocatedApi\<close> in the class needs \<open>Info\<close>
  complete, so the class has an instance only if each of its members is well formed.\<close>

record api_info =
  ModuleList :: "cpp_type list"
  Advertisements :: infra_type
  ApiTypes :: "infra_type list"

definition ApiManager_Info :: "cpp_type list \<Rightarrow> api_info option" where
  "ApiManager_Info Modules =
     Option.bind (concat_T (map WalkModuleTree_class Modules)) (\<lambda>advertisements.
       Some \<lparr>ModuleList = Modules, Advertisements = advertisements, ApiTypes = []\<rparr>)"

lemma concat_T_lists: "concat_T (map TypeList Ls) = map_option TypeList (tl_concat Ls)"
  by (induction Ls rule: tl_concat.induct) simp_all

lemma concat_T_class: "concat_T (map WalkModuleTree_class Ms) = None"
  by (cases Ms rule: list.exhaust; cases "tl Ms"; cases "tl (tl Ms)") (auto simp: WalkModuleTree_class_def)

text \<open>
  C37. The API manager has no instance: whatever modules it is given, its list of advertisements
  concatenates the classes \<open>WalkModuleTree<...>\<close>, which are no lists. Their member types would do for two
  or more modules, and give the advertisements of all of them in order, but not for a single module.
\<close>

theorem ApiManager_never_compiles:
  assumes "map (WalkModuleTree_Type env fuel) Modules = map (\<lambda>ads. Some (TypeList ads)) found"
  shows "ApiManager_Info Modules = None \<and>
    concat_T (map (\<lambda>M. the (WalkModuleTree_Type env fuel M)) Modules) =
      (if 2 \<le> length Modules then Some (TypeList (concat found)) else None)"
proof -
  have "length found = length Modules" using assms by (metis length_map)
  moreover have "map (\<lambda>M. the (WalkModuleTree_Type env fuel M)) Modules = map TypeList found"
    using arg_cong [OF assms, of "map the"] by (simp add: comp_def)
  ultimately show ?thesis by (auto simp: ApiManager_Info_def concat_T_class concat_T_lists tl_concat_eq)
qed

text \<open>The contract node's own module tree: it and its two handlers, with no API.\<close>

lemma node_env_apis: "DMarcTag node_env M ''ApiTag'' = Some (TypeList [])"
proof -
  have "member_DMarc node_env M =
      (if M = Class ''ContractNode'' \<or> M = Const (Class ''ContractNode'') then Some DMarc_ContractNode else None)"
    by (auto simp: member_DMarc_def node_env_def split: cpp_type.split)
  then show ?thesis
    by (simp add: DMarcTag_def DMarcFor_def ExtractTypeIfPresent_def Map_Lookup_eq DMarc_ContractNode_def)
qed

lemma node_WalkModuleTree_Type: "WalkModuleTree_Type node_env 2 (Class ''ContractNode'') = Some (TypeList [])"
  by (simp add: WalkModuleTree_Type_def WalkModuleTree_def AccumulatorEmptyState_def eval_nat_numeral ApiAdvertisementAccumulator_def
      node_env_lookup node_env_apis Submodules_ContractNode_def ModuleType_def decay_def tl_append_def)

theorem ApiManager_never_compiles_witness:
  "ApiManager_Info [Class ''ContractNode''] = None \<and>
   concat_T [the (WalkModuleTree_Type node_env 2 (Class ''ContractNode''))] = None"
  using ApiManager_never_compiles [of node_env 2 "[Class ''ContractNode'']" "[[]]"]
  by (simp add: node_WalkModuleTree_Type)

section \<open>The results of an allocation\<close>

text \<open>What a lookup at run time is to return: an advertisement as data, and the alternatives of an
  \<open>ApiAllocationResult\<close>, which nests the variant of all known API types in another variant.\<close>

record ApiAdvertisement =
  categorization :: "string list"
  api_name :: string

record AmbiguousRequest =
  exactMatches :: "ApiAdvertisement list"
  looseMatches :: "ApiAdvertisement list"

datatype 'a result_type = Api 'a | UnknownApi | Ambiguous | VariantOf "'a result_type list"

definition AllocatedApi :: "'a result_type list \<Rightarrow> 'a result_type" where
  "AllocatedApi api_types = tl_apply api_types VariantOf"

definition ApiAllocationResult :: "'a result_type list \<Rightarrow> 'a result_type" where
  "ApiAllocationResult api_types = VariantOf [AllocatedApi api_types, UnknownApi, Ambiguous]"

text \<open>The types that have objects: constructing and destroying a \<open>StaticVariant\<close> instantiates its class,
  the dispatch over its types, and the destructor of each of them. None of the types is a reference.\<close>

fun has_objects :: "'a result_type \<Rightarrow> bool" where
  "has_objects (VariantOf Types) \<longleftrightarrow> static_variant_types (\<lambda>T. False) Types \<and> Dispatch_compiles Types \<and>
     (\<forall>T \<in> set Types. has_objects T)"
| "has_objects T \<longleftrightarrow> True"

lemma has_objects_variant:
  assumes "length Types < 2 ^ 63"
  shows "has_objects (VariantOf Types) \<longleftrightarrow> distinct Types \<and> Types \<noteq> [] \<and> (\<forall>T \<in> set Types. has_objects T)"
proof -
  have "unat (of_nat (length Types) :: size_t) = length Types"
    by (rule unat_tl_length) (use assms in simp)
  then have "Dispatch_compiles Types \<longleftrightarrow> Types \<noteq> []"
    by (simp add: Dispatch_compiles_def unat_eq_zero [symmetric] del: unat_eq_zero)
  then show ?thesis using static_variant_types_eq [OF assms, of "\<lambda>T. False"] by (auto simp: list_all_iff)
qed

text \<open>
  C36. The result of \<open>AllocateApi\<close>: objects of this type can be made and destroyed exactly when there is
  at least one API type and none is listed twice. \<open>Info::ApiTypes\<close> is the empty list, for which the
  dispatch in the destructor of the nested variant does not compile, so no allocation can return.
\<close>

theorem allocation_result_needs_an_api:
  assumes "length apis < 2 ^ 63"
  shows "has_objects (ApiAllocationResult (map Api apis)) \<longleftrightarrow> apis \<noteq> [] \<and> distinct apis"
proof -
  have "has_objects (AllocatedApi (map Api apis)) \<longleftrightarrow> apis \<noteq> [] \<and> distinct apis"
    using has_objects_variant [of "map Api apis"] assms
    by (auto simp: AllocatedApi_def tl_apply_def distinct_map inj_on_def)
  moreover have "distinct [AllocatedApi (map Api apis), UnknownApi, Ambiguous]"
    by (simp add: AllocatedApi_def tl_apply_def)
  ultimately show ?thesis
    using has_objects_variant [of "[AllocatedApi (map Api apis), UnknownApi, Ambiguous]"]
    by (simp add: ApiAllocationResult_def)
qed

theorem allocation_result_needs_an_api_witness:
  "has_objects (ApiAllocationResult (map Api [''WalletApi'', ''ChainApi''])) \<and>
   \<not> has_objects (ApiAllocationResult (map Api ([] :: string list)))"
  using allocation_result_needs_an_api [of "[''WalletApi'', ''ChainApi'']"]
    allocation_result_needs_an_api [of "[] :: string list"] by simp

end
