(* ===== verification/Reflect.thy ===== *)
theory Reflect
  imports Type_List
begin

text \<open>
  \<open>Infra/Reflect.hpp\<close>: the macros that record the members of a class in specializations of
  \<open>reflector\<close> and \<open>member_name\<close>. A macro is a function from its arguments to what it expands to; the
  expansions are chains of member templates of \<open>TypeList::builder\<close>, looked up by name, so a name that
  the builder does not have makes the expansion ill-formed, \<open>None\<close>. The registry is the list of
  specializations that a translation unit has seen. Classes are trees of their direct bases, which are
  public and not virtual; an object has a value for every field of every subobject, and a subobject is
  named by the path of bases that leads to it.
\<close>

section \<open>Classes, objects and pointers to members\<close>

datatype 't cpp_class =
  Cpp_class (class_name: string) (class_bases: "'t cpp_class list") (class_fields: "(string \<times> 't) list")

type_synonym subobject_path = "string list"
type_synonym 'v cpp_object = "subobject_path \<Rightarrow> string \<Rightarrow> 'v"

datatype 't member_pointer = Member_pointer (pointed_class: "'t cpp_class") (pointed_field: string)

text \<open>The subobjects of a class in an object of another: none, or one for each way to inherit it.\<close>

fun subobject_paths :: "'t cpp_class \<Rightarrow> 't cpp_class \<Rightarrow> subobject_path list" where
  "subobject_paths (Cpp_class n bs fs) B =
     (if Cpp_class n bs fs = B then [[]]
      else concat (map (\<lambda>b. map ((#) (class_name b)) (subobject_paths b B)) bs))"

text \<open>The implicit conversion of a \<open>Member Base::*\<close> to a \<open>Member Derived::*\<close> exists when the base is
  unambiguous; it yields the base's path.\<close>

definition pointer_conversion :: "'t cpp_class \<Rightarrow> 't member_pointer \<Rightarrow> subobject_path option" where
  "pointer_conversion Derived field =
     (case subobject_paths Derived (pointed_class field) of [p] \<Rightarrow> Some p | _ \<Rightarrow> None)"

text \<open>\<open>decltype(container::member)\<close> and \<open>&container::member\<close>. A pointer to a member that the container
  only inherits points into the base, and a template argument is not converted to the container.\<close>

definition member_decltype :: "'t cpp_class \<Rightarrow> string \<Rightarrow> 't option" where
  "member_decltype container m = map_of (class_fields container) m"

definition member_address :: "'t cpp_class \<Rightarrow> string \<Rightarrow> 't member_pointer option" where
  "member_address container m =
     (if m \<in> fst ` set (class_fields container) then Some (Member_pointer container m) else None)"

section \<open>Reflections of fields\<close>

datatype 't field_refl =
    Field_reflection (refl_index: nat) (container: "'t cpp_class") (refl_type: 't) (pointer: "'t member_pointer")
  | Inherited_field_reflection (index_in_base: nat) (field_container: "'t cpp_class") (container: "'t cpp_class")
      (refl_type: 't) (pointer: "'t member_pointer")

fun is_derived :: "'t field_refl \<Rightarrow> bool" where
  "is_derived (Field_reflection _ _ _ _) = False"
| "is_derived (Inherited_field_reflection _ _ _ _ _) = True"

text \<open>The field that \<open>get\<close> returns a reference to; in the second case the pointer is converted first.\<close>

fun field_location :: "'t field_refl \<Rightarrow> (subobject_path \<times> string) option" where
  "field_location (Field_reflection i C T field) = Some ([], pointed_field field)"
| "field_location (Inherited_field_reflection i B D T field) =
     map_option (\<lambda>p. (p, pointed_field field)) (pointer_conversion D field)"

definition refl_get :: "'t field_refl \<Rightarrow> 'v cpp_object \<Rightarrow> 'v option" where
  "refl_get r c = map_option (\<lambda>(p, f). c p f) (field_location r)"

text \<open>Writing through the reference that the non-const overload returns.\<close>

definition refl_put :: "'t field_refl \<Rightarrow> 'v \<Rightarrow> 'v cpp_object \<Rightarrow> 'v cpp_object option" where
  "refl_put r v c = map_option (\<lambda>(p, f). c(p := (c p)(f := v))) (field_location r)"

section \<open>The registry\<close>

record 't reflector_members =
  reflected :: "'t cpp_class"
  is_defined :: bool
  native_members :: "'t field_refl list"
  inherited_members :: "'t field_refl list"
  all_members :: "'t field_refl list"
  base_classes :: "'t cpp_class list"
  reflector_name :: string

record 't registry =
  reflectors :: "'t reflector_members list"
  member_names :: "(('t cpp_class \<times> nat) \<times> string) list"

definition primary_reflector :: "'t cpp_class \<Rightarrow> 't reflector_members" where
  "primary_reflector T = \<lparr>reflected = T, is_defined = False, native_members = [], inherited_members = [],
     all_members = [], base_classes = [], reflector_name = ''Unknown Type''\<rparr>"

definition reflector :: "'t registry \<Rightarrow> 't cpp_class \<Rightarrow> 't reflector_members" where
  "reflector reg T =
     (case find (\<lambda>r. reflected r = T) (reflectors reg) of None \<Rightarrow> primary_reflector T | Some r \<Rightarrow> r)"

definition member_name :: "'t registry \<Rightarrow> 't cpp_class \<Rightarrow> nat \<Rightarrow> string" where
  "member_name reg C i = (case map_of (member_names reg) (C, i) of None \<Rightarrow> ''Unknown member'' | Some s \<Rightarrow> s)"

text \<open>The member templates of a \<open>List\<close>: it has none.\<close>

definition List_template :: "string \<Rightarrow> ('a list \<Rightarrow> nat \<Rightarrow> 'a option) option" where
  "List_template m = None"

fun native_name :: "'t registry \<Rightarrow> 't field_refl \<Rightarrow> string option" where
  "native_name reg (Field_reflection i C T field) = Some (member_name reg C i)"
| "native_name reg (Inherited_field_reflection i B D T field) = None"

fun get_name :: "'t registry \<Rightarrow> 't field_refl \<Rightarrow> string option" where
  "get_name reg (Field_reflection i C T field) = native_name reg (Field_reflection i C T field)"
| "get_name reg (Inherited_field_reflection i B D T field) =
     Option.bind (List_template ''at'') (\<lambda>at.
     Option.bind (at (native_members (reflector reg B)) i) (native_name reg))"

section \<open>The macros\<close>

text \<open>The member templates of \<open>TypeList::builder\<close> by name, each applied to a type or to a list of types.\<close>

datatype 'a template_argument = One_type 'a | Type_list "'a list"

definition builder_template :: "string \<Rightarrow> ('a list \<Rightarrow> 'a template_argument \<Rightarrow> 'a list option) option" where
  "builder_template m =
     (if m = ''add'' then
        Some (\<lambda>L a. case a of One_type T \<Rightarrow> builder_add L T | Type_list _ \<Rightarrow> None)
      else if m = ''addList'' then
        Some (\<lambda>L a. case a of Type_list Ts \<Rightarrow> builder_addList L Ts | One_type _ \<Rightarrow> None)
      else None)"

text \<open>\<open>TypeList::builder<>::type ::m<a> ... ::finalize\<close>.\<close>

fun builder_chain :: "(string \<times> 'a template_argument) list \<Rightarrow> 'a list \<Rightarrow> 'a list option" where
  "builder_chain [] L = Some (builder_finalize L)"
| "builder_chain ((m, a) # ms) L =
     Option.bind (builder_template m) (\<lambda>t. Option.bind (t L a) (builder_chain ms))"

definition Reflect_type :: "'t cpp_class \<Rightarrow> 't \<Rightarrow> nat \<Rightarrow> 't member_pointer \<Rightarrow> 't field_refl" where
  "Reflect_type Container Member Index field = Field_reflection Index Container Member field"

fun Derivation_reflection_transformer :: "'t cpp_class \<Rightarrow> 't field_refl \<Rightarrow> 't field_refl" where
  "Derivation_reflection_transformer Derived (Field_reflection IndexInBase BaseContainer Member field) =
     Inherited_field_reflection IndexInBase BaseContainer Derived Member field"
| "Derivation_reflection_transformer Derived
       (Inherited_field_reflection IndexInBase BaseContainer IntermediateContainer Member field) =
     Inherited_field_reflection IndexInBase BaseContainer Derived Member field"

definition REFLECT_CONCAT_BASE_MEMBER_REFLECTIONS ::
  "'t registry \<Rightarrow> 't cpp_class \<Rightarrow> 't cpp_class \<Rightarrow> (string \<times> 't field_refl template_argument) option" where
  "REFLECT_CONCAT_BASE_MEMBER_REFLECTIONS reg derived base =
     map_option (\<lambda>L. (''add_list'', Type_list L))
       (tl_transform (all_members (reflector reg base)) (\<lambda>r. Some (Derivation_reflection_transformer derived r)))"

definition REFLECT_CONCAT_MEMBER_REFLECTION ::
  "'t cpp_class \<Rightarrow> nat \<Rightarrow> string \<Rightarrow> (string \<times> 't field_refl template_argument) option" where
  "REFLECT_CONCAT_MEMBER_REFLECTION C idx m =
     Option.bind (member_decltype C m) (\<lambda>T.
     Option.bind (member_address C m) (\<lambda>field.
       Some (''add'', One_type (Reflect_type C T idx field))))"

definition REFLECT_MEMBER_NAME :: "'t cpp_class \<Rightarrow> nat \<Rightarrow> string \<Rightarrow> ('t cpp_class \<times> nat) \<times> string" where
  "REFLECT_MEMBER_NAME C idx m = ((C, idx), m)"

text \<open>The macro for a class template gives a partial specialization: it names the member for every
  instance of the class template, whatever the arguments are for the parameters of its sequence
  \<open>data\<close>.\<close>

definition REFLECT_TEMPLATE_MEMBER_NAME ::
  "'a list \<times> ('a list \<Rightarrow> 't cpp_class) \<Rightarrow> nat \<Rightarrow> string \<Rightarrow> 'a list \<Rightarrow> (('t cpp_class \<times> nat) \<times> string) option" where
  "REFLECT_TEMPLATE_MEMBER_NAME data idx m arguments =
     (case data of (parameters, instance_of) \<Rightarrow>
       if length arguments = length parameters then Some ((instance_of arguments, idx), m) else None)"

definition REFLECT_CONCAT_TYPE :: "'t cpp_class \<Rightarrow> string \<times> 't cpp_class template_argument" where
  "REFLECT_CONCAT_TYPE T = (''add'', One_type T)"

text \<open>\<open>spelled\<close> is the text of the argument \<open>TYPE\<close>, which \<open>BOOST_PP_STRINGIZE\<close> quotes. A class can have
  one specialization of \<open>reflector\<close> only.\<close>

definition REFLECT_DERIVED ::
  "'t registry \<Rightarrow> string \<Rightarrow> 't cpp_class \<Rightarrow> 't cpp_class list \<Rightarrow> string list \<Rightarrow> 't registry option" where
  "REFLECT_DERIVED reg spelled REFLECTED INHERITS MEMBERS =
     (if REFLECTED \<in> reflected ` set (reflectors reg) then None
      else
        Option.bind (Option.bind
          (those (map (\<lambda>(idx, m). REFLECT_CONCAT_MEMBER_REFLECTION REFLECTED idx m) (enumerate 0 MEMBERS)))
          (\<lambda>chain. builder_chain chain [])) (\<lambda>native.
        Option.bind (Option.bind
          (those (map (REFLECT_CONCAT_BASE_MEMBER_REFLECTIONS reg REFLECTED) INHERITS))
          (\<lambda>chain. builder_chain chain [])) (\<lambda>inherited.
        Option.bind (tl_concat [inherited, native]) (\<lambda>both.
        Option.bind (builder_chain (map REFLECT_CONCAT_TYPE INHERITS) []) (\<lambda>bases.
          Some (reg\<lparr>reflectors := reflectors reg @ [\<lparr>reflected = REFLECTED, is_defined = True,
                      native_members = native, inherited_members = inherited, all_members = both,
                      base_classes = bases, reflector_name = spelled\<rparr>],
                    member_names := member_names reg @
                      map (\<lambda>(idx, m). REFLECT_MEMBER_NAME REFLECTED idx m) (enumerate 0 MEMBERS)\<rparr>))))))"

definition REFLECT :: "'t registry \<Rightarrow> string \<Rightarrow> 't cpp_class \<Rightarrow> string list \<Rightarrow> 't registry option" where
  "REFLECT reg spelled REFLECTED MEMBERS = REFLECT_DERIVED reg spelled REFLECTED [] MEMBERS"

section \<open>What a reflected class looks like\<close>

definition registry_ok :: "'t registry \<Rightarrow> bool" where
  "registry_ok reg \<longleftrightarrow> distinct (map reflected (reflectors reg)) \<and>
     distinct (map fst (member_names reg)) \<and>
     fst ` fst ` set (member_names reg) \<subseteq> reflected ` set (reflectors reg)"

definition empty_registry :: "'t registry" where
  "empty_registry = \<lparr>reflectors = [], member_names = []\<rparr>"

lemma empty_registry_ok: "registry_ok empty_registry"
  by (simp add: registry_ok_def empty_registry_def)

lemma builder_chain_add: "builder_chain (map (\<lambda>a. (''add'', One_type a)) xs) L = Some (L @ xs)"
  by (induction xs arbitrary: L)
    (simp_all add: builder_template_def builder_add_def builder_finalize_def)

definition native_reflection :: "'t cpp_class \<Rightarrow> nat \<times> string \<Rightarrow> 't field_refl" where
  "native_reflection C = (\<lambda>(i, m). Field_reflection i C (the (map_of (class_fields C) m)) (Member_pointer C m))"

lemma native_chain:
  assumes "set MEMBERS \<subseteq> fst ` set (class_fields C)"
  shows "Option.bind (those (map (\<lambda>(idx, m). REFLECT_CONCAT_MEMBER_REFLECTION C idx m) (enumerate k MEMBERS)))
      (\<lambda>chain. builder_chain chain []) = Some (map (native_reflection C) (enumerate k MEMBERS))"
proof -
  have step: "REFLECT_CONCAT_MEMBER_REFLECTION C i m = Some (''add'', One_type (native_reflection C (i, m)))"
    if "m \<in> fst ` set (class_fields C)" for i m
  proof -
    have "map_of (class_fields C) m \<noteq> None" using that by (simp add: map_of_eq_None_iff)
    then obtain T where "map_of (class_fields C) m = Some T" by auto
    with that show ?thesis
      by (simp add: REFLECT_CONCAT_MEMBER_REFLECTION_def member_decltype_def member_address_def
          Reflect_type_def native_reflection_def)
  qed
  have "those (map (\<lambda>(idx, m). REFLECT_CONCAT_MEMBER_REFLECTION C idx m) (enumerate k MEMBERS)) =
      Some (map (\<lambda>a. (''add'', One_type a)) (map (native_reflection C) (enumerate k MEMBERS)))"
    using assms by (induction MEMBERS arbitrary: k) (auto simp: step)
  then show ?thesis by (simp only: Option.bind.simps builder_chain_add append.simps)
qed

lemma native_chain_missing:
  assumes "\<not> set MEMBERS \<subseteq> fst ` set (class_fields C)"
  shows "those (map (\<lambda>(idx, m). REFLECT_CONCAT_MEMBER_REFLECTION C idx m) (enumerate k MEMBERS)) = None"
  using assms
proof (induction MEMBERS arbitrary: k)
  case (Cons m ms)
  show ?case
  proof (cases "m \<in> fst ` set (class_fields C)")
    case True
    with Cons show ?thesis by (cases "REFLECT_CONCAT_MEMBER_REFLECTION C k m") auto
  next
    case False
    then have "map_of (class_fields C) m = None" by (simp add: map_of_eq_None_iff)
    then have "REFLECT_CONCAT_MEMBER_REFLECTION C k m = None"
      by (simp add: REFLECT_CONCAT_MEMBER_REFLECTION_def member_decltype_def)
    then show ?thesis by simp
  qed
qed simp

text \<open>The entries that a successful \<open>REFLECT\<close> adds.\<close>

definition native_entry :: "string \<Rightarrow> 't cpp_class \<Rightarrow> string list \<Rightarrow> 't reflector_members" where
  "native_entry spelled C MEMBERS = \<lparr>reflected = C, is_defined = True,
      native_members = map (native_reflection C) (enumerate 0 MEMBERS), inherited_members = [],
      all_members = map (native_reflection C) (enumerate 0 MEMBERS), base_classes = [], reflector_name = spelled\<rparr>"

definition register :: "'t registry \<Rightarrow> string \<Rightarrow> 't cpp_class \<Rightarrow> string list \<Rightarrow> 't registry" where
  "register reg spelled C MEMBERS = reg\<lparr>reflectors := reflectors reg @ [native_entry spelled C MEMBERS],
     member_names := member_names reg @ map (\<lambda>(i, m). ((C, i), m)) (enumerate 0 MEMBERS)\<rparr>"

lemma REFLECT_eq:
  assumes "C \<notin> reflected ` set (reflectors reg)" "set MEMBERS \<subseteq> fst ` set (class_fields C)"
  shows "REFLECT reg spelled C MEMBERS = Some (register reg spelled C MEMBERS)"
  using assms(1) native_chain [OF assms(2), of 0]
  unfolding REFLECT_def REFLECT_DERIVED_def REFLECT_MEMBER_NAME_def
  by (simp add: builder_finalize_def register_def native_entry_def)

lemma find_append: "find P (xs @ ys) = (case find P xs of None \<Rightarrow> find P ys | Some x \<Rightarrow> Some x)"
  by (induction xs) auto

lemma reflector_absent: "C \<notin> reflected ` set (reflectors reg) \<longleftrightarrow> find (\<lambda>r. reflected r = C) (reflectors reg) = None"
  by (auto simp: find_None_iff)

lemma enumerate_names:
  assumes "\<forall>i. (C, i) \<notin> fst ` set names"
  shows "k \<le> i \<Longrightarrow> i < k + length ms \<Longrightarrow>
    map_of (names @ map (\<lambda>(i, m). ((C, i), m)) (enumerate k ms)) (C, i) = Some (ms ! (i - k))"
proof (induction ms arbitrary: k)
  case (Cons m ms)
  have none: "map_of names (C, i) = None" using assms by (simp add: map_of_eq_None_iff)
  with Cons show ?case by (cases "i = k") (auto simp: map_add_Some_iff map_add_def Suc_diff_le nth_Cons' split: option.split)
qed simp

lemma register_names:
  assumes "registry_ok reg" "C \<notin> reflected ` set (reflectors reg)"
  shows "\<forall>i. (C, i) \<notin> fst ` set (member_names reg)"
  using assms by (force simp: registry_ok_def)

lemma register_ok:
  assumes "registry_ok reg" "C \<notin> reflected ` set (reflectors reg)"
  shows "registry_ok (register reg spelled C MEMBERS)"
proof -
  have "map fst (map (\<lambda>(i, m). ((C, i), m)) (enumerate 0 MEMBERS)) = map (Pair C) (map fst (enumerate 0 MEMBERS))"
    by (simp add: comp_def case_prod_unfold del: map_fst_enumerate)
  then have fst_names: "map fst (map (\<lambda>(i, m). ((C, i), m)) (enumerate 0 MEMBERS)) = map (Pair C) [0..<length MEMBERS]"
    by (simp only: map_fst_enumerate add_0)
  have names: "map fst (member_names (register reg spelled C MEMBERS)) =
      map fst (member_names reg) @ map (Pair C) [0..<length MEMBERS]"
    unfolding fst_names [symmetric] by (simp add: register_def)
  have "distinct (map fst (member_names reg))" using assms(1) by (simp add: registry_ok_def)
  moreover have "distinct (map (Pair C) [0..<length MEMBERS])" by (simp add: distinct_map inj_on_def)
  ultimately have "distinct (map fst (member_names (register reg spelled C MEMBERS)))"
    using register_names [OF assms] unfolding names by auto
  moreover have "fst ` fst ` set (member_names (register reg spelled C MEMBERS)) \<subseteq> insert C (reflected ` set (reflectors reg))"
    using assms(1) by (auto simp: register_def registry_ok_def in_set_enumerate_eq image_subset_iff)
  ultimately show ?thesis
    using assms by (simp add: registry_ok_def) (simp add: register_def native_entry_def)
qed

lemma reflector_register:
  assumes "C \<notin> reflected ` set (reflectors reg)"
  shows "reflector (register reg spelled C MEMBERS) D = (if D = C then native_entry spelled C MEMBERS else reflector reg D)"
  using assms by (simp add: reflector_def register_def find_append native_entry_def reflector_absent split: option.split)

lemma register_reflects:
  assumes "registry_ok reg" "C \<notin> reflected ` set (reflectors reg)" "set MEMBERS \<subseteq> fst ` set (class_fields C)"
    and i: "i < length MEMBERS"
  shows "let r = native_members (native_entry spelled C MEMBERS) ! i in
    \<not> is_derived r \<and> refl_index r = i \<and> container r = C \<and>
    map_of (class_fields C) (MEMBERS ! i) = Some (refl_type r) \<and>
    get_name (register reg spelled C MEMBERS) r = Some (MEMBERS ! i) \<and>
    (\<forall>c :: 'v cpp_object. refl_get r c = Some (c [] (MEMBERS ! i)))"
proof -
  have "member_name (register reg spelled C MEMBERS) C i = MEMBERS ! i"
    using enumerate_names [OF register_names [OF assms(1,2)], of 0 i MEMBERS] i by (simp add: member_name_def register_def)
  moreover have "map_of (class_fields C) (MEMBERS ! i) \<noteq> None"
    using assms(3) i nth_mem [of i MEMBERS] by (auto simp: map_of_eq_None_iff)
  ultimately show ?thesis using i by (auto simp: native_entry_def nth_enumerate_eq native_reflection_def refl_get_def Let_def)
qed

text \<open>
  C38. \<open>REFLECT\<close> describes a class faithfully: for any selection of the class's own fields, the expansion
  compiles and registers one reflection per field, in the order given, with its position as index, the
  field's type, the name under which it was listed, and an accessor for exactly that field; there are no
  inherited members, the registry stays consistent, and what other classes have registered is unchanged.
\<close>

theorem REFLECT_spec:
  fixes reg :: "'t registry"
  assumes "registry_ok reg" and "C \<notin> reflected ` set (reflectors reg)"
    and "set MEMBERS \<subseteq> fst ` set (class_fields C)"
  shows "\<exists>reg'. REFLECT reg spelled C MEMBERS = Some reg' \<and> registry_ok reg' \<and>
    is_defined (reflector reg' C) \<and> reflector_name (reflector reg' C) = spelled \<and>
    base_classes (reflector reg' C) = [] \<and> inherited_members (reflector reg' C) = [] \<and>
    all_members (reflector reg' C) = native_members (reflector reg' C) \<and>
    length (native_members (reflector reg' C)) = length MEMBERS \<and>
    (\<forall>i < length MEMBERS. let r = native_members (reflector reg' C) ! i in
       \<not> is_derived r \<and> refl_index r = i \<and> container r = C \<and>
       map_of (class_fields C) (MEMBERS ! i) = Some (refl_type r) \<and> get_name reg' r = Some (MEMBERS ! i) \<and>
       (\<forall>c :: 'v cpp_object. refl_get r c = Some (c [] (MEMBERS ! i)))) \<and>
    (\<forall>D. D \<noteq> C \<longrightarrow> reflector reg' D = reflector reg D)"
proof -
  have "native_members (native_entry spelled C MEMBERS) = all_members (native_entry spelled C MEMBERS) \<and>
      length (native_members (native_entry spelled C MEMBERS)) = length MEMBERS"
    by (simp add: native_entry_def)
  moreover have "\<forall>i < length MEMBERS. let r = native_members (native_entry spelled C MEMBERS) ! i in
      \<not> is_derived r \<and> refl_index r = i \<and> container r = C \<and>
      map_of (class_fields C) (MEMBERS ! i) = Some (refl_type r) \<and>
      get_name (register reg spelled C MEMBERS) r = Some (MEMBERS ! i) \<and>
      (\<forall>c :: 'v cpp_object. refl_get r c = Some (c [] (MEMBERS ! i)))"
    using register_reflects [OF assms] by blast
  ultimately show ?thesis
    using REFLECT_eq [OF assms(2,3)] register_ok [OF assms(1,2)]
    by (intro exI [of _ "register reg spelled C MEMBERS"])
      (simp add: reflector_register [OF assms(2)], simp add: native_entry_def)
qed

definition point_class :: "string cpp_class" where
  "point_class = Cpp_class ''Point'' [] [(''x'', ''int''), (''y'', ''int''), (''label'', ''std::string'')]"

theorem REFLECT_spec_witness:
  "\<exists>reg'. REFLECT empty_registry ''Geo::Point'' point_class [''label'', ''x''] = Some reg' \<and>
    length (native_members (reflector reg' point_class)) = 2 \<and>
    get_name reg' (native_members (reflector reg' point_class) ! 1) = Some ''x'' \<and>
    refl_get (native_members (reflector reg' point_class) ! 1) (\<lambda>p f. if f = ''x'' then 7 else 0 :: int) = Some 7"
proof -
  have "point_class \<notin> reflected ` set (reflectors empty_registry)" by (simp add: empty_registry_def)
  moreover have "set [''label'', ''x''] \<subseteq> fst ` set (class_fields point_class)" by (simp add: point_class_def)
  ultimately obtain reg' where reg': "REFLECT empty_registry ''Geo::Point'' point_class [''label'', ''x''] = Some reg'"
    "length (native_members (reflector reg' point_class)) = 2"
    "\<forall>i < 2. let r = native_members (reflector reg' point_class) ! i in
       get_name reg' r = Some ([''label'', ''x''] ! i) \<and>
       (\<forall>c :: int cpp_object. refl_get r c = Some (c [] ([''label'', ''x''] ! i)))"
    using REFLECT_spec [OF empty_registry_ok, where ?'v = int, of point_class "[''label'', ''x'']" "''Geo::Point''"]
    by (auto simp: Let_def)
  from reg'(3) have "let r = native_members (reflector reg' point_class) ! 1 in
       get_name reg' r = Some ([''label'', ''x''] ! 1) \<and>
       (\<forall>c :: int cpp_object. refl_get r c = Some (c [] ([''label'', ''x''] ! 1)))" by (metis one_less_numeral_iff semiring_norm(76))
  with reg'(1,2) show ?thesis by (auto simp: Let_def)
qed

text \<open>
  C39. When the macros compile: exactly for a class that is not reflected yet, without base classes to
  inherit members from, and with members that it declares itself. \<open>REFLECT_DERIVED\<close> with a base class
  never compiles, because its expansion asks the builder for \<open>add_list\<close>, which is named \<open>addList\<close>.
\<close>

theorem REFLECT_DERIVED_compiles:
  "REFLECT_DERIVED reg spelled C INHERITS MEMBERS \<noteq> None \<longleftrightarrow>
    C \<notin> reflected ` set (reflectors reg) \<and> INHERITS = [] \<and> set MEMBERS \<subseteq> fst ` set (class_fields C)"
proof -
  let ?natives = "Option.bind (those (map (\<lambda>(idx, m). REFLECT_CONCAT_MEMBER_REFLECTION C idx m) (enumerate 0 MEMBERS)))
      (\<lambda>chain. builder_chain chain [])"
  let ?bases = "Option.bind (those (map (REFLECT_CONCAT_BASE_MEMBER_REFLECTIONS reg C) INHERITS))
      (\<lambda>chain. builder_chain chain [])"
  have bases: "?bases = None" if nonempty: "INHERITS \<noteq> []"
  proof -
    obtain B Bs where Bs: "INHERITS = B # Bs" using nonempty by (cases INHERITS) auto
    obtain L where "REFLECT_CONCAT_BASE_MEMBER_REFLECTIONS reg C B = Some (''add_list'', Type_list L)"
      by (simp add: REFLECT_CONCAT_BASE_MEMBER_REFLECTIONS_def tl_transform_eq)
    with Bs show ?thesis
      by (cases "those (map (REFLECT_CONCAT_BASE_MEMBER_REFLECTIONS reg C) Bs)") (simp_all add: builder_template_def)
  qed
  consider "C \<in> reflected ` set (reflectors reg)" | "\<not> set MEMBERS \<subseteq> fst ` set (class_fields C)"
    | "INHERITS \<noteq> []" "set MEMBERS \<subseteq> fst ` set (class_fields C)"
    | "C \<notin> reflected ` set (reflectors reg)" "INHERITS = []" "set MEMBERS \<subseteq> fst ` set (class_fields C)" by blast
  then show ?thesis
  proof cases
    case 2
    then have "?natives = None" using native_chain_missing [of MEMBERS C 0] by simp
    with 2 show ?thesis by (simp add: REFLECT_DERIVED_def)
  next
    case 3
    with bases show ?thesis by (cases "?natives") (simp_all add: REFLECT_DERIVED_def)
  next
    case 4
    with REFLECT_eq [OF 4(1,3), of spelled] show ?thesis by (simp add: REFLECT_def)
  qed (simp add: REFLECT_DERIVED_def)
qed

section \<open>Members of base classes\<close>

lemma class_size: "b \<in> set (class_bases C) \<Longrightarrow> size b < size C"
  by (cases C) (auto dest: size_list_estimation' [where f = size, OF _ order_refl] simp: less_Suc_eq_le)

lemma subobject_path_cases:
  "p \<in> set (subobject_paths D C) \<Longrightarrow>
   (D = C \<and> p = []) \<or> (D \<noteq> C \<and> (\<exists>b q. b \<in> set (class_bases D) \<and> p = class_name b # q \<and> q \<in> set (subobject_paths b C)))"
  by (cases D) (auto split: if_splits)

lemma subobject_pathI:
  "D \<noteq> C \<Longrightarrow> b \<in> set (class_bases D) \<Longrightarrow> q \<in> set (subobject_paths b C) \<Longrightarrow>
   class_name b # q \<in> set (subobject_paths D C)"
  by (cases D) auto

lemma subobject_size: "p \<in> set (subobject_paths D C) \<Longrightarrow> size C \<le> size D"
proof (induction p arbitrary: D)
  case Nil
  then show ?case using subobject_path_cases by blast
next
  case (Cons n p)
  then obtain b where "b \<in> set (class_bases D)" "p \<in> set (subobject_paths b C)"
    using subobject_path_cases [OF Cons.prems] by auto
  with Cons.IH class_size show ?case by fastforce
qed

lemma subobject_paths_append:
  "p \<in> set (subobject_paths D C) \<Longrightarrow> q \<in> set (subobject_paths C B) \<Longrightarrow> p @ q \<in> set (subobject_paths D B)"
proof (induction p arbitrary: D)
  case Nil
  then show ?case using subobject_path_cases [OF Nil.prems(1)] by auto
next
  case (Cons n p)
  then obtain b where b: "b \<in> set (class_bases D)" "n = class_name b" "p \<in> set (subobject_paths b C)"
    using subobject_path_cases [OF Cons.prems(1)] by auto
  have "size B \<le> size C" "size C \<le> size b" "size b < size D"
    using subobject_size Cons.prems(2) b class_size by blast+
  then have "D \<noteq> B" by auto
  from subobject_pathI [OF this b(1) Cons.IH [OF b(3) Cons.prems(2)]] b(2) show ?case by simp
qed

definition subobject :: "subobject_path \<Rightarrow> 'v cpp_object \<Rightarrow> 'v cpp_object" where
  "subobject p c = (\<lambda>q. c (p @ q))"

text \<open>A reflection as the macros and the transformer build it: the pointer points into the container, or
  into the base that the reflection names.\<close>

fun refl_ok :: "'t field_refl \<Rightarrow> bool" where
  "refl_ok (Field_reflection i C T field) \<longleftrightarrow> pointed_class field = C"
| "refl_ok (Inherited_field_reflection i B D T field) \<longleftrightarrow> pointed_class field = B"

lemma derived_location:
  assumes "refl_ok r" "field_location r = Some (q, f)" "p \<in> set (subobject_paths D (container r))"
    and "pointer_conversion D (pointer r) \<noteq> None"
  shows "field_location (Derivation_reflection_transformer D r) = Some (p @ q, f)"
proof -
  have unique: "pointer_conversion D (pointer r) = Some (p @ q)" if "q \<in> set (subobject_paths (container r) (pointed_class (pointer r)))"
    using subobject_paths_append [OF assms(3) that] assms(4)
    by (auto simp: pointer_conversion_def split: list.splits)
  show ?thesis
  proof (cases r)
    case (Field_reflection i C T field)
    with assms(1,2) unique show ?thesis by (cases C) simp
  next
    case (Inherited_field_reflection i B E T field)
    with assms(2) obtain p' where "subobject_paths E (pointed_class field) = [p']" "q = p'" "f = pointed_field field"
      by (auto simp: pointer_conversion_def split: list.splits)
    with Inherited_field_reflection unique show ?thesis by simp
  qed
qed

text \<open>
  C40. Members of base classes: the transformer makes, from any reflection of a field in a base class, one
  that reads and writes the same field inside the base's part of a derived object, whatever the number of
  classes in between, provided that the class declaring the field is an unambiguous base; deriving step by
  step is deriving at once; for an ambiguous base the accessor does not compile.
\<close>

theorem derived_reflection_get:
  fixes c :: "'v cpp_object"
  assumes "refl_ok r" and "field_location r \<noteq> None" and "p \<in> set (subobject_paths D (container r))"
  shows "(if pointer_conversion D (pointer r) = None
      then refl_get (Derivation_reflection_transformer D r) c = None \<and> refl_put (Derivation_reflection_transformer D r) v c = None
      else refl_get (Derivation_reflection_transformer D r) c = refl_get r (subobject p c) \<and>
        (\<exists>c'. refl_put (Derivation_reflection_transformer D r) v c = Some c' \<and> refl_put r v (subobject p c) = Some (subobject p c'))) \<and>
    Derivation_reflection_transformer D (Derivation_reflection_transformer E r) = Derivation_reflection_transformer D r"
proof (cases "pointer_conversion D (pointer r) = None")
  case True
  then show ?thesis by (cases r) (simp_all add: refl_get_def refl_put_def)
next
  case False
  obtain q f where loc: "field_location r = Some (q, f)" using assms(2) by auto
  from derived_location [OF assms(1) loc assms(3) False]
  have "field_location (Derivation_reflection_transformer D r) = Some (p @ q, f)" .
  moreover have "Derivation_reflection_transformer D (Derivation_reflection_transformer E r) =
      Derivation_reflection_transformer D r" by (cases r) simp_all
  ultimately show ?thesis
    using loc False
    by (auto simp: refl_get_def refl_put_def subobject_def fun_eq_iff
        intro!: exI [of _ "c(p @ q := (c (p @ q))(f := v))"])
qed

definition shape_class :: "string cpp_class" where
  "shape_class = Cpp_class ''Shape'' [point_class, Cpp_class ''Colour'' [] [(''rgb'', ''int'')]] [(''area'', ''double'')]"

definition disc_class :: "string cpp_class" where
  "disc_class = Cpp_class ''Disc'' [shape_class] [(''radius'', ''double'')]"

theorem derived_reflection_get_witness:
  "refl_get (Derivation_reflection_transformer disc_class
      (Derivation_reflection_transformer shape_class (native_reflection point_class (0, ''x''))))
    (\<lambda>p f. if p = [''Shape'', ''Point''] \<and> f = ''x'' then 3 else 0 :: int) = Some 3"
proof -
  let ?r = "native_reflection point_class (0, ''x'')"
  have r: "refl_ok ?r" "field_location ?r \<noteq> None" "[''Shape'', ''Point''] \<in> set (subobject_paths disc_class (container ?r))"
    and conv: "pointer_conversion disc_class (pointer ?r) \<noteq> None"
    by (simp_all add: native_reflection_def pointer_conversion_def disc_class_def shape_class_def point_class_def)
  from derived_reflection_get [OF r, where E = shape_class and v = 1 and
      c = "\<lambda>p f. if p = [''Shape'', ''Point''] \<and> f = ''x'' then 3 else 0 :: int"]
  have "refl_get (Derivation_reflection_transformer disc_class (Derivation_reflection_transformer shape_class ?r))
      (\<lambda>p f. if p = [''Shape'', ''Point''] \<and> f = ''x'' then 3 else 0 :: int) =
    refl_get ?r (subobject [''Shape'', ''Point''] (\<lambda>p f. if p = [''Shape'', ''Point''] \<and> f = ''x'' then 3 else 0 :: int))"
    by (simp only: conv if_False)
  then show ?thesis by (simp add: refl_get_def subobject_def native_reflection_def)
qed

end
