(* ===== verification/Std_Map.thy ===== *)
theory Std_Map
  imports Prelude "HOL-Library.List_Lexorder" "HOL-Library.Char_ord"
begin

text \<open>
  The standard containers that the modules keep their registries in. A \<open>std::map\<close> is the list of its
  entries in key order, because \<open>getSpaceId\<close> and the database dump iterate it in that order; a file
  system path is the list of its elements, ordered element by element as \<open>BFS::path\<close> is when it is
  the key of a map.
\<close>

type_synonym ('k, 'v) stdmap = "('k \<times> 'v) list"

fun map_emplace :: "'k::linorder \<Rightarrow> 'v \<Rightarrow> ('k, 'v) stdmap \<Rightarrow> ('k, 'v) stdmap" where
  "map_emplace k v [] = [(k, v)]"
| "map_emplace k v ((a, b) # m) =
     (if k < a then (k, v) # (a, b) # m
      else if k = a then (a, b) # m
      else (a, b) # map_emplace k v m)"

fun map_erase :: "'k::linorder \<Rightarrow> ('k, 'v) stdmap \<Rightarrow> ('k, 'v) stdmap" where
  "map_erase k [] = []"
| "map_erase k ((a, b) # m) = (if k = a then m else (a, b) # map_erase k m)"

definition map_find :: "('k::linorder, 'v) stdmap \<Rightarrow> 'k \<Rightarrow> 'v option" where
  "map_find m k = map_of m k"

definition map_ok :: "('k::linorder, 'v) stdmap \<Rightarrow> bool" where
  "map_ok m \<longleftrightarrow> sorted_wrt (<) (map fst m)"

section \<open>The contract of a map\<close>

locale map_contract =
  fixes find :: "'m \<Rightarrow> 'k \<Rightarrow> 'v option"
    and emplace :: "'k \<Rightarrow> 'v \<Rightarrow> 'm \<Rightarrow> 'm"
    and erase :: "'k \<Rightarrow> 'm \<Rightarrow> 'm"
    and empty :: 'm
    and ok :: "'m \<Rightarrow> bool"
  assumes find_empty: "find empty k = None" and ok_empty: "ok empty"
    and find_emplace: "ok m \<Longrightarrow> find (emplace k v m) =
           (case find m k of None \<Rightarrow> (find m)(k \<mapsto> v) | Some _ \<Rightarrow> find m)"
    and ok_emplace: "ok m \<Longrightarrow> ok (emplace k v m)"
    and find_erase: "ok m \<Longrightarrow> find (erase k m) = (find m)(k := None)"
    and ok_erase: "ok m \<Longrightarrow> ok (erase k m)"
begin

lemma emplace_keeps: "ok m \<Longrightarrow> find m k = Some v \<Longrightarrow> find (emplace k' v' m) k = Some v"
  by (auto simp: find_emplace split: option.split)

lemma emplace_adds: "ok m \<Longrightarrow> find m k = None \<Longrightarrow> find (emplace k v m) k = Some v"
  by (simp add: find_emplace)

lemma emplace_other: "ok m \<Longrightarrow> k' \<noteq> k \<Longrightarrow> find (emplace k v m) k' = find m k'"
  by (auto simp: find_emplace split: option.split)

lemma emplace_cases:
  "ok m \<Longrightarrow> find (emplace k v m) k' = Some w \<Longrightarrow> find m k' = Some w \<or> (k' = k \<and> w = v)"
  by (auto simp: find_emplace split: option.splits if_splits)

lemma erase_emplace: "ok m \<Longrightarrow> find m k = None \<Longrightarrow> find (erase k (emplace k v m)) = find m"
  by (auto simp: find_erase ok_emplace find_emplace)

lemma erase_other: "ok m \<Longrightarrow> k' \<noteq> k \<Longrightarrow> find (erase k m) k' = find m k'"
  by (simp add: find_erase)

end

lemma map_ok_Nil [simp]: "map_ok []"
  by (simp add: map_ok_def)

lemma map_ok_Cons: "map_ok ((a, b) # m) \<longleftrightarrow> map_ok m \<and> (\<forall>k \<in> fst ` set m. a < k)"
  by (auto simp: map_ok_def)

lemma keys_emplace: "fst ` set (map_emplace k v m) = insert k (fst ` set m)"
  by (induction k v m rule: map_emplace.induct) auto

lemma map_ok_emplace [intro]: "map_ok m \<Longrightarrow> map_ok (map_emplace k v m)"
proof (induction k v m rule: map_emplace.induct)
  case (2 k v a b m)
  then show ?case by (auto simp: map_ok_Cons keys_emplace)
qed (simp add: map_ok_def)

lemma set_erase: "set (map_erase k m) \<subseteq> set m"
  by (induction k m rule: map_erase.induct) auto

lemma map_ok_erase [intro]: "map_ok m \<Longrightarrow> map_ok (map_erase k m)"
proof (induction k m rule: map_erase.induct)
  case (2 k a b m)
  then show ?case using set_erase [of k m] by (auto simp: map_ok_Cons image_iff)
qed simp

lemma map_find_None: "map_find m k = None \<longleftrightarrow> k \<notin> fst ` set m"
  by (simp add: map_find_def map_of_eq_None_iff)

lemma map_find_emplace:
  "map_ok m \<Longrightarrow> map_find (map_emplace k v m) =
     (case map_find m k of None \<Rightarrow> (map_find m)(k \<mapsto> v) | Some _ \<Rightarrow> map_find m)"
proof (induction k v m rule: map_emplace.induct)
  case (2 k v a b m)
  have fresh: "map_of m k = None" if "k < a"
    using "2.prems" that by (auto simp: map_ok_Cons map_of_eq_None_iff)
  show ?case
  proof (cases "map_of m k")
    case None
    with 2 show ?thesis
      by (auto simp: map_find_def map_ok_Cons fun_eq_iff)
  next
    case (Some x)
    with 2 fresh show ?thesis
      by (auto simp: map_find_def map_ok_Cons fun_eq_iff)
  qed
qed (simp add: map_find_def fun_eq_iff)

lemma map_find_erase: "map_ok m \<Longrightarrow> map_find (map_erase k m) = (map_find m)(k := None)"
proof (induction k m rule: map_erase.induct)
  case (2 k a b m)
  then have "k = a \<Longrightarrow> map_of m k = None"
    by (auto simp: map_ok_Cons map_of_eq_None_iff)
  with 2 show ?case by (auto simp: map_find_def map_ok_Cons fun_eq_iff)
qed (simp add: map_find_def fun_eq_iff)

interpretation stdmap: map_contract map_find map_emplace map_erase "[]" map_ok
  by unfold_locales
    (auto simp: map_find_emplace map_find_erase, simp add: map_find_def)

lemma map_find_entry: "map_ok m \<Longrightarrow> map_find m k = Some v \<longleftrightarrow> (k, v) \<in> set m"
proof (induction m)
  case (Cons x m)
  obtain a b where "x = (a, b)" by (cases x)
  with Cons show ?case by (auto simp: map_ok_Cons map_find_def image_iff)
qed (simp add: map_find_def)

section \<open>Paths\<close>

datatype path = Path (elements: "string list")

instantiation path :: linorder
begin

definition less_eq_path :: "path \<Rightarrow> path \<Rightarrow> bool" where
  "less_eq_path p q \<longleftrightarrow> elements p \<le> elements q"

definition less_path :: "path \<Rightarrow> path \<Rightarrow> bool" where
  "less_path p q \<longleftrightarrow> elements p < elements q"

instance
proof
  fix p q r :: path
  show "p < q \<longleftrightarrow> p \<le> q \<and> \<not> q \<le> p" by (auto simp: less_eq_path_def less_path_def)
  show "p \<le> p" by (simp add: less_eq_path_def)
  show "p \<le> q \<Longrightarrow> q \<le> r \<Longrightarrow> p \<le> r" by (auto simp: less_eq_path_def)
  show "p \<le> q \<Longrightarrow> q \<le> p \<Longrightarrow> p = q" by (auto simp: less_eq_path_def intro: path.expand)
  show "p \<le> q \<or> q \<le> p" by (auto simp: less_eq_path_def)
qed

end

text \<open>\<open>p / "name"\<close>, \<open>parent_path()\<close> and \<open>filename()\<close>.\<close>

definition path_append :: "path \<Rightarrow> string list \<Rightarrow> path" where
  "path_append p es = Path (elements p @ es)"

definition parent_path :: "path \<Rightarrow> path" where
  "parent_path p = Path (butlast (elements p))"

definition filename :: "path \<Rightarrow> string" where
  "filename p = (if elements p = [] then [] else last (elements p))"

lemma parent_path_append [simp]: "parent_path (path_append p [e]) = p"
  by (simp add: parent_path_def path_append_def)

end
