(* ===== verification/Chain_Handler.thy ===== *)
theory Chain_Handler
  imports Std_Map
begin

text \<open>
  \<open>Modules/ChainHandler.hpp\<close> and \<open>.cpp\<close>: the object that owns the chain database and the node's
  persistence database, assigns every contract its object space and opens the chain. The chain
  database is Graphene's: it is a type \<open>'c\<close>, changed by the contracts' initializers, which are
  arguments. The persistence database is reached through the two operations the code uses, in the
  record \<open>record_ops\<close>; \<open>contract_index\<close> is the index of contract records that the source declares.
\<close>

section \<open>Contract records\<close>

definition FIRST_AVAILABLE_SPACE_ID :: u8 where
  "FIRST_AVAILABLE_SPACE_ID = 10"

definition CONTRACT_RECORD_TYPE_ID :: u8 where
  "CONTRACT_RECORD_TYPE_ID = 0"

text \<open>A record: the instance number of its object id and the contract's name. The sum in
  \<open>contractObjectSpaceId\<close> is computed on 64 bits and returned as a \<open>uint8_t\<close>.\<close>

record contract_record =
  id_number :: u64
  cr_name :: string

definition contractObjectSpaceId :: "contract_record \<Rightarrow> u8" where
  "contractObjectSpaceId r = ucast (ucast FIRST_AVAILABLE_SPACE_ID + id_number r :: u64)"

record 'p record_ops =
  lower_bound_by_name :: "'p \<Rightarrow> string \<Rightarrow> contract_record option"
  create_record :: "'p \<Rightarrow> string \<Rightarrow> ('p \<times> contract_record) res"

text \<open>The index \<open>ContractRecordIndex\<close>: records unique by id and unique and ordered by name, in an
  object database that numbers new objects consecutively and refuses a second object with a name.\<close>

record contract_index =
  next_number :: u64
  index_records :: "contract_record list"

definition index_lower_bound :: "contract_index \<Rightarrow> string \<Rightarrow> contract_record option" where
  "index_lower_bound ix name =
     (case sort_key cr_name (filter (\<lambda>r. name \<le> cr_name r) (index_records ix)) of
        [] \<Rightarrow> None | r # _ \<Rightarrow> Some r)"

definition index_create :: "contract_index \<Rightarrow> string \<Rightarrow> (contract_index \<times> contract_record) res" where
  "index_create ix name =
     (if name \<in> set (map cr_name (index_records ix))
      then Inl (FcAssert ''Could not create object! Most likely a uniqueness constraint is violated.'')
      else let r = \<lparr>id_number = next_number ix, cr_name = name\<rparr>
           in Inr (\<lparr>next_number = next_number ix + 1, index_records = index_records ix @ [r]\<rparr>, r))"

definition contract_index_ops :: "contract_index record_ops" where
  "contract_index_ops = \<lparr>lower_bound_by_name = index_lower_bound, create_record = index_create\<rparr>"

section \<open>The chain handler\<close>

record ('c, 'p) chain_handler =
  basePath :: path
  chain :: 'c
  persistence :: 'p
  isOpen :: bool
  loadedContracts :: "(u8, string) stdmap"

definition chainPath :: "('c, 'p) chain_handler \<Rightarrow> path" where
  "chainPath h = path_append (basePath h) [''Chain'']"

definition persistencePath :: "('c, 'p) chain_handler \<Rightarrow> path" where
  "persistencePath h = path_append (basePath h) [''NodePersistence'']"

definition getConfigPath :: "('c, 'p) chain_handler \<Rightarrow> path" where
  "getConfigPath h = basePath h"

definition setConfigPath :: "('c, 'p) chain_handler \<Rightarrow> path \<Rightarrow> ('c, 'p) chain_handler res" where
  "setConfigPath h newPath =
     (if isOpen h then Inl (FcAssert ''Cannot set path after the databases are opened'')
      else Inr (h\<lparr>basePath := newPath\<rparr>))"

definition getChain :: "('c, 'p) chain_handler \<Rightarrow> 'c" where
  "getChain h = chain h"

definition getLoadedContracts :: "('c, 'p) chain_handler \<Rightarrow> (u8, string) stdmap" where
  "getLoadedContracts h = loadedContracts h"

text \<open>\<open>getSpaceId\<close> searches the map in key order.\<close>

definition getSpaceId :: "('c, 'p) chain_handler \<Rightarrow> string \<Rightarrow> u8 res" where
  "getSpaceId h contractName =
     (case find (\<lambda>pair. snd pair = contractName) (loadedContracts h) of
        None \<Rightarrow> Inl (FcAssert ''Could not find contract'')
      | Some itr \<Rightarrow> Inr (fst itr))"

text \<open>\<open>initialize()\<close>: the index is added and the database opened, which loads what is on disk
  (an argument) or throws; then it keeps the handler's other state.\<close>

definition initialize_handler ::
  "(path \<Rightarrow> 'p res) \<Rightarrow> ('c, 'p) chain_handler \<Rightarrow> ('c, 'p) chain_handler res" where
  "initialize_handler open_persistence h =
     rbind (open_persistence (persistencePath h)) (\<lambda>p. Inr (h\<lparr>persistence := p\<rparr>))"

text \<open>The record of a contract: the recorded one, or a new one.\<close>

definition contract_record_for ::
  "'p record_ops \<Rightarrow> 'p \<Rightarrow> string \<Rightarrow> ('p \<times> contract_record) res" where
  "contract_record_for P p name =
     (case lower_bound_by_name P p name of
        Some r \<Rightarrow> if cr_name r = name then Inr (p, r) else create_record P p name
      | None \<Rightarrow> create_record P p name)"

definition initializeContract ::
  "'p record_ops \<Rightarrow> string \<Rightarrow> ('c \<Rightarrow> u8 \<Rightarrow> 'c \<times> bool res) \<Rightarrow> ('c, 'p) chain_handler \<Rightarrow>
   ('c, 'p) chain_handler \<times> bool res" where
  "initializeContract P name initFunction h =
     (case contract_record_for P (persistence h) name of
        Inl e \<Rightarrow> (h, Inl e)
      | Inr (p, r) \<Rightarrow>
          (let (c, result) = initFunction (chain h) (contractObjectSpaceId r);
               h' = h\<lparr>persistence := p, chain := c\<rparr>
           in case result of
                Inl e \<Rightarrow> (h', Inl e)
              | Inr ok \<Rightarrow>
                  if ok then
                    (h'\<lparr>loadedContracts :=
                        map_emplace (contractObjectSpaceId r) name (loadedContracts h')\<rparr>, Inr True)
                  else (h', Inr False)))"

section \<open>Opening the chain\<close>

text \<open>
  The genesis state, as far as the code touches it: the time, the chain id and the rest. The
  libraries it uses are arguments: JSON parsing and printing, SHA-256, the clock, the block interval
  constant and the development genesis built from the fixed key. Files are a partial map.
\<close>

record ('g, 'h) genesis_state =
  initial_timestamp :: u32
  initial_chain_id :: 'h
  genesis_rest :: 'g

record ('g, 'h) genesis_env =
  parse_genesis :: "nat \<Rightarrow> string \<Rightarrow> ('g, 'h) genesis_state res"
  genesis_to_string :: "('g, 'h) genesis_state \<Rightarrow> string"
  sha256 :: "string \<Rightarrow> 'h"
  no_chain_id :: 'h
  time_now :: u32
  default_block_interval :: u32
  development_genesis :: 'g

text \<open>The depth to which the parsed JSON is followed.\<close>

definition MAX_RECURSION_DEPTH :: nat where
  "MAX_RECURSION_DEPTH = 200"

type_synonym files = "path \<Rightarrow> string option"

definition genesisPath :: "('c, 'p) chain_handler \<Rightarrow> path" where
  "genesisPath h = path_append (parent_path (chainPath h)) [''genesis.json'']"

definition computeGenesis ::
  "('g, 'h) genesis_env \<Rightarrow> path \<Rightarrow> files \<Rightarrow> files \<times> ('g, 'h) genesis_state res" where
  "computeGenesis env genesis_path fs =
     (case fs genesis_path of
        Some content \<Rightarrow>
          (fs, rbind (parse_genesis env MAX_RECURSION_DEPTH content) (\<lambda>genesis.
             Inr (genesis\<lparr>initial_chain_id :=
                    sha256 env (genesis_to_string env genesis @ [CHR 0x0A])\<rparr>)))
      | None \<Rightarrow>
          (let now = time_now env;
               genesis = \<lparr>initial_timestamp = now - now mod default_block_interval env,
                          initial_chain_id = no_chain_id env,
                          genesis_rest = development_genesis env\<rparr>;
               genesisString = genesis_to_string env genesis @ [CHR 0x0A]
           in (fs(genesis_path \<mapsto> genesisString),
               Inr (genesis\<lparr>initial_chain_id := sha256 env genesisString\<rparr>))))"

text \<open>\<open>open()\<close>: the database opens its directory and calls the genesis function only when it has no
  chain yet; it is an argument, as is whether it succeeds.\<close>

definition open_chain ::
  "(path \<Rightarrow> (files \<Rightarrow> files \<times> ('g, 'h) genesis_state res) \<Rightarrow> 'c \<Rightarrow> files \<Rightarrow> 'c \<times> files \<times> unit res) \<Rightarrow>
   ('g, 'h) genesis_env \<Rightarrow> ('c, 'p) chain_handler \<Rightarrow> files \<Rightarrow>
   ('c, 'p) chain_handler \<times> files \<times> unit res" where
  "open_chain db_open env h fs =
     (let (c, fs', r) = db_open (chainPath h) (computeGenesis env (genesisPath h)) (chain h) fs
      in case r of
           Inl e \<Rightarrow> (h\<lparr>chain := c\<rparr>, fs', Inl e)
         | Inr _ \<Rightarrow> (h\<lparr>chain := c, isOpen := True\<rparr>, fs', Inr ()))"

text \<open>The handler's invariant over a store with records \<open>recs\<close>: every loaded contract is recorded,
  under the space of its record.\<close>

definition handler_ok ::
  "('p \<Rightarrow> contract_record list) \<Rightarrow> ('p \<Rightarrow> bool) \<Rightarrow> ('c, 'p) chain_handler \<Rightarrow> bool" where
  "handler_ok recs ok h \<longleftrightarrow> ok (persistence h) \<and> map_ok (loadedContracts h) \<and>
     list_all (\<lambda>(k, n). list_ex (\<lambda>r. contractObjectSpaceId r = k \<and> cr_name r = n)
                 (recs (persistence h))) (loadedContracts h)"

text \<open>A sequence of contract initializations, whatever each of them returns or throws.\<close>

fun run_calls ::
  "'p record_ops \<Rightarrow> (string \<times> ('c \<Rightarrow> u8 \<Rightarrow> 'c \<times> bool res)) list \<Rightarrow> ('c, 'p) chain_handler \<Rightarrow>
   ('c, 'p) chain_handler" where
  "run_calls P [] h = h"
| "run_calls P ((n, f) # calls) h = run_calls P calls (fst (initializeContract P n f h))"

lemma set_emplace: "set (map_emplace k v m) \<subseteq> insert (k, v) (set m)"
  by (induction k v m rule: map_emplace.induct) auto

section \<open>The contract of the record store\<close>

text \<open>
  What the handler needs of the persistence database: a lookup by name that finds exactly the stored
  records, and a creation that appends a record with the next number and the given name.
\<close>

locale record_store =
  fixes P :: "'p record_ops"
    and recs :: "'p \<Rightarrow> contract_record list"
    and ok :: "'p \<Rightarrow> bool"
  assumes lookup: "ok p \<Longrightarrow> (lower_bound_by_name P p n = Some r \<and> cr_name r = n) \<longleftrightarrow>
           (r \<in> set (recs p) \<and> cr_name r = n)"
    and create: "ok p \<Longrightarrow> n \<notin> cr_name ` set (recs p) \<Longrightarrow>
           \<exists>p' r. create_record P p n = Inr (p', r) \<and> ok p' \<and> recs p' = recs p @ [r] \<and>
             cr_name r = n \<and> id_number r = of_nat (length (recs p))"
    and ids: "ok p \<Longrightarrow> map id_number (recs p) = map of_nat [0..<length (recs p)]"
    and names: "ok p \<Longrightarrow> distinct (map cr_name (recs p))"
begin

lemma record_for_known:
  "ok p \<Longrightarrow> r \<in> set (recs p) \<Longrightarrow> contract_record_for P p (cr_name r) = Inr (p, r)"
  using lookup [of p "cr_name r" r] by (simp add: contract_record_for_def)

lemma record_for_new:
  assumes "ok p" "n \<notin> cr_name ` set (recs p)"
  shows "\<exists>p' r. contract_record_for P p n = Inr (p', r) \<and> ok p' \<and> recs p' = recs p @ [r] \<and>
    cr_name r = n \<and> id_number r = of_nat (length (recs p))"
proof -
  have none: "\<not> (lower_bound_by_name P p n = Some r \<and> cr_name r = n)" for r
  proof
    assume "lower_bound_by_name P p n = Some r \<and> cr_name r = n"
    with lookup [OF assms(1)] have "r \<in> set (recs p) \<and> cr_name r = n" by blast
    with assms(2) show False by auto
  qed
  have "contract_record_for P p n = create_record P p n"
  proof (cases "lower_bound_by_name P p n")
    case (Some r)
    with none have "cr_name r \<noteq> n" by blast
    with Some show ?thesis by (simp add: contract_record_for_def)
  qed (simp add: contract_record_for_def)
  with create [OF assms] show ?thesis by simp
qed

lemma record_for:
  assumes "ok p"
  obtains p' r new where "contract_record_for P p n = Inr (p', r)" "ok p'" "recs p' = recs p @ new"
    "r \<in> set (recs p')" "cr_name r = n"
proof (cases "n \<in> cr_name ` set (recs p)")
  case True
  then obtain r where r: "r \<in> set (recs p)" "n = cr_name r" by auto
  show thesis
    by (rule that [of p r "[]"]) (use assms r record_for_known [OF assms r(1)] in simp_all)
next
  case False
  from record_for_new [OF assms this] obtain p' r where
    "contract_record_for P p n = Inr (p', r)" "ok p'" "recs p' = recs p @ [r]" "cr_name r = n"
    by blast
  then show thesis by (intro that [of p' r "[r]"]) auto
qed

lemma initializeContract_ok:
  assumes "handler_ok recs ok h"
  shows "handler_ok recs ok (fst (initializeContract P name f h)) \<and>
    (\<exists>new. recs (persistence (fst (initializeContract P name f h))) = recs (persistence h) @ new)"
proof -
  from assms have "ok (persistence h)" by (simp add: handler_ok_def)
  then obtain p r new where p: "contract_record_for P (persistence h) name = Inr (p, r)" "ok p"
    "recs p = recs (persistence h) @ new" "r \<in> set (recs p)" "cr_name r = name"
    by (rule record_for)
  obtain c result where f: "f (chain h) (contractObjectSpaceId r) = (c, result)" by fastforce
  let ?h = "h\<lparr>persistence := p, chain := c\<rparr>"
  let ?m = "map_emplace (contractObjectSpaceId r) name (loadedContracts h)"
  have ok: "handler_ok recs ok ?h"
    using assms p by (auto simp: handler_ok_def list_all_iff list_ex_iff)
  have "handler_ok recs ok (?h\<lparr>loadedContracts := ?m\<rparr>)"
    using ok p(4,5) set_emplace [of "contractObjectSpaceId r" name "loadedContracts h"]
    by (fastforce simp: handler_ok_def list_all_iff list_ex_iff)
  with ok p f show ?thesis
    by (cases result) (auto simp: initializeContract_def Let_def)
qed

lemma run_calls_ok:
  "handler_ok recs ok h \<Longrightarrow> handler_ok recs ok (run_calls P calls h) \<and>
     (\<exists>new. recs (persistence (run_calls P calls h)) = recs (persistence h) @ new)"
proof (induction calls arbitrary: h)
  case (Cons call calls)
  obtain n f where "call = (n, f)" by (cases call)
  then show ?case
    using initializeContract_ok [OF Cons.prems, of n f]
      Cons.IH [of "fst (initializeContract P n f h)"] by auto
qed simp

lemma record_kept:
  "handler_ok recs ok h \<Longrightarrow> r \<in> set (recs (persistence h)) \<Longrightarrow>
   contract_record_for P (persistence (run_calls P calls h)) (cr_name r) =
     Inr (persistence (run_calls P calls h), r)"
  using run_calls_ok [of h calls] by (intro record_for_known) (auto simp: handler_ok_def)

end

section \<open>The declared index keeps the contract\<close>

definition index_ok :: "contract_index \<Rightarrow> bool" where
  "index_ok ix \<longleftrightarrow> next_number ix = of_nat (length (index_records ix)) \<and>
     map id_number (index_records ix) = map of_nat [0..<length (index_records ix)] \<and>
     distinct (map cr_name (index_records ix))"

lemma index_lower_bound_hit:
  "(index_lower_bound ix n = Some r \<and> cr_name r = n) \<Longrightarrow> r \<in> set (index_records ix)"
proof -
  assume *: "index_lower_bound ix n = Some r \<and> cr_name r = n"
  let ?L = "sort_key cr_name (filter (\<lambda>r. n \<le> cr_name r) (index_records ix))"
  from * obtain L where L: "?L = r # L"
    by (auto simp: index_lower_bound_def split: list.splits)
  have "r \<in> set ?L" by (subst L) simp
  then show ?thesis by simp
qed

lemma index_lower_bound_finds:
  assumes "distinct (map cr_name (index_records ix))" "r \<in> set (index_records ix)"
  shows "index_lower_bound ix (cr_name r) = Some r"
proof -
  let ?L = "sort_key cr_name (filter (\<lambda>q. cr_name r \<le> cr_name q) (index_records ix))"
  have r: "r \<in> set ?L" using assms(2) by simp
  then obtain q L where L: "?L = q # L" by (cases ?L) auto
  have q: "q \<in> set (index_records ix)" "cr_name r \<le> cr_name q"
  proof -
    have "q \<in> set ?L" by (subst L) simp
    then show "q \<in> set (index_records ix)" "cr_name r \<le> cr_name q" by auto
  qed
  have "sorted (map cr_name ?L)" by simp
  with L r have "cr_name q \<le> cr_name r" by auto
  with q(2) have "cr_name q = cr_name r" by simp
  then have "q = r" using assms q(1) by (auto simp: distinct_map inj_on_def)
  with L show ?thesis by (simp add: index_lower_bound_def)
qed

interpretation contract_store: record_store contract_index_ops index_records index_ok
proof
  fix ix n r
  assume ok: "index_ok ix"
  then have distinct: "distinct (map cr_name (index_records ix))" by (simp add: index_ok_def)
  show "(lower_bound_by_name contract_index_ops ix n = Some r \<and> cr_name r = n) \<longleftrightarrow>
      (r \<in> set (index_records ix) \<and> cr_name r = n)"
    using index_lower_bound_finds [OF distinct] index_lower_bound_hit [of ix n r]
    by (auto simp: contract_index_ops_def)
  show "\<exists>ix' r. create_record contract_index_ops ix n = Inr (ix', r) \<and> index_ok ix' \<and>
      index_records ix' = index_records ix @ [r] \<and> cr_name r = n \<and>
      id_number r = of_nat (length (index_records ix))"
    if "n \<notin> cr_name ` set (index_records ix)"
    using ok that by (auto simp: contract_index_ops_def index_create_def index_ok_def Let_def)
  show "map id_number (index_records ix) = map of_nat [0..<length (index_records ix)]"
    using ok by (simp add: index_ok_def)
  show "distinct (map cr_name (index_records ix))" by (rule distinct)
qed

interpretation contract_calls: kept_invariant
  "\<lambda>(n, f) h. fst (initializeContract contract_index_ops n f h)" "handler_ok index_records index_ok"
  by unfold_locales (use contract_store.initializeContract_ok in auto)

lemma run_calls_fold:
  "run_calls P calls h = fold (\<lambda>(n, f) h. fst (initializeContract P n f h)) calls h"
  by (induction P calls h rule: run_calls.induct) auto

section \<open>Space ids\<close>

lemma unat_space_id: "unat (contractObjectSpaceId r) = (10 + unat (id_number r)) mod 256"
proof -
  have "unat (ucast FIRST_AVAILABLE_SPACE_ID + id_number r :: u64) = (10 + unat (id_number r)) mod 2 ^ 64"
    by (simp add: FIRST_AVAILABLE_SPACE_ID_def unat_word_ariths)
  moreover have "(x mod 2 ^ 64) mod 256 = x mod (256 :: nat)" for x
    by (rule mod_mod_cancel) simp
  ultimately show ?thesis
    by (simp add: contractObjectSpaceId_def unsigned_ucast_eq take_bit_eq_mod)
qed

lemma index_ok_id:
  assumes "index_ok ix" "i < length (index_records ix)"
  shows "id_number (index_records ix ! i) = of_nat i"
  using assms by (metis (mono_tags, lifting) add_0 diff_zero index_ok_def length_map length_upt nth_map nth_upt)

lemma nth_space_id:
  assumes "index_ok ix" "i < length (index_records ix)" "i < 2 ^ 64"
  shows "unat (contractObjectSpaceId (index_records ix ! i)) = (10 + i) mod 256"
  using assms by (simp add: unat_space_id index_ok_id unat_of_nat)

lemma space_id_inj:
  assumes "index_ok ix" "length (index_records ix) \<le> 246"
  shows "inj_on contractObjectSpaceId (set (index_records ix))"
proof (rule inj_onI)
  fix q r assume "q \<in> set (index_records ix)" "r \<in> set (index_records ix)"
    and eq: "contractObjectSpaceId q = contractObjectSpaceId r"
  then obtain i j where "i < length (index_records ix)" "index_records ix ! i = q"
    "j < length (index_records ix)" "index_records ix ! j = r" by (auto simp: in_set_conv_nth)
  moreover from this have "(10 + i) mod 256 = (10 + j) mod 256"
    using assms eq nth_space_id [OF assms(1), of i] nth_space_id [OF assms(1), of j] by simp
  ultimately show "q = r" using assms(2) by simp
qed

text \<open>The sum wraps in the \<open>uint8_t\<close>: the 247th record is given object space 0, which belongs to the chain,
  and the 257th shares the space of the first.\<close>

lemma space_ids_wrap:
  assumes "index_ok ix" and "246 < length (index_records ix)"
  shows "contractObjectSpaceId (index_records ix ! 246) = 0 \<and>
    (256 < length (index_records ix) \<longrightarrow>
       contractObjectSpaceId (index_records ix ! 256) = contractObjectSpaceId (index_records ix ! 0))"
proof -
  have "unat (contractObjectSpaceId (index_records ix ! 246)) = 0"
    using assms by (simp add: nth_space_id)
  moreover have "unat (contractObjectSpaceId (index_records ix ! 256)) =
      unat (contractObjectSpaceId (index_records ix ! 0))" if "256 < length (index_records ix)"
    using assms that by (subst (1 2) nth_space_id) auto
  ultimately show ?thesis by (auto simp: word_unat_eq_iff)
qed

definition sample_index :: contract_index where
  "sample_index = \<lparr>next_number = 2,
     index_records = [\<lparr>id_number = 0, cr_name = ''voting''\<rparr>, \<lparr>id_number = 1, cr_name = ''escrow''\<rparr>]\<rparr>"

lemma sample_index_ok: "index_ok sample_index"
  by (simp add: index_ok_def sample_index_def)

definition many_records :: "nat \<Rightarrow> contract_index" where
  "many_records n = \<lparr>next_number = of_nat n,
     index_records = map (\<lambda>i. \<lparr>id_number = of_nat i, cr_name = replicate i CHR ''c''\<rparr>) [0..<n]\<rparr>"

lemma many_records_ok: "index_ok (many_records n)"
proof -
  have "inj_on (\<lambda>i. replicate i CHR ''c'') S" for S :: "nat set"
    by (rule inj_onI) (metis length_replicate)
  then show ?thesis by (simp add: index_ok_def many_records_def distinct_map o_def)
qed

text \<open>
  C18. How many contracts the spaces are enough for: every contract record has an object space of its own
  exactly up to 256 records, and none of them has one of the ten spaces below
  \<open>FIRST_AVAILABLE_SPACE_ID\<close> that the chain itself uses exactly up to 246 records.
\<close>

theorem space_ids_distinct:
  assumes "index_ok ix"
  shows "(distinct (map contractObjectSpaceId (index_records ix)) \<longleftrightarrow> length (index_records ix) \<le> 256) \<and>
    (list_all (\<lambda>r. FIRST_AVAILABLE_SPACE_ID \<le> contractObjectSpaceId r) (index_records ix) \<longleftrightarrow>
      length (index_records ix) \<le> 246)"
proof (intro conjI iffI)
  let ?rs = "index_records ix"
  have id: "unat (contractObjectSpaceId (?rs ! i)) = (10 + i) mod 256" if "i < length ?rs" "i < 256" for i
    using nth_space_id [OF assms that(1)] that(2) by simp
  show "distinct (map contractObjectSpaceId ?rs)" if len: "length ?rs \<le> 256"
    unfolding distinct_conv_nth
  proof (intro allI impI)
    fix i j assume ij: "i < length (map contractObjectSpaceId ?rs)" "j < length (map contractObjectSpaceId ?rs)" "i \<noteq> j"
    then have lt: "i < length ?rs" "i < 256" "j < length ?rs" "j < 256" using len by simp_all
    have rot: "(10 + k) mod 256 = (if k < 246 then 10 + k else k - 246)" if "k < 256" for k :: nat
      using that by (simp add: le_mod_geq)
    have "(10 + i) mod 256 \<noteq> (10 + j) mod 256"
      unfolding rot [OF lt(2)] rot [OF lt(4)] using lt(2,4) ij(3) by (cases "i < 246"; cases "j < 246") auto
    then have "unat (contractObjectSpaceId (?rs ! i)) \<noteq> unat (contractObjectSpaceId (?rs ! j))"
      by (simp only: id [OF lt(1,2)] id [OF lt(3,4)] not_False_eq_True)
    then show "map contractObjectSpaceId ?rs ! i \<noteq> map contractObjectSpaceId ?rs ! j"
      unfolding nth_map [OF lt(1)] nth_map [OF lt(3)] by (rule contrapos_nn) (rule arg_cong)
  qed
  show "length ?rs \<le> 256" if "distinct (map contractObjectSpaceId ?rs)"
  proof (rule ccontr)
    assume "\<not> length ?rs \<le> 256"
    then have "256 < length ?rs" "0 < length ?rs" by linarith+
    with space_ids_wrap [OF assms] nth_eq_iff_index_eq [OF that, of 256 0] show False
      by (simp del: length_greater_0_conv)
  qed
  show "list_all (\<lambda>r. FIRST_AVAILABLE_SPACE_ID \<le> contractObjectSpaceId r) ?rs" if "length ?rs \<le> 246"
    using that by (auto simp: list_all_length word_le_nat_alt id FIRST_AVAILABLE_SPACE_ID_def)
  show "length ?rs \<le> 246" if "list_all (\<lambda>r. FIRST_AVAILABLE_SPACE_ID \<le> contractObjectSpaceId r) ?rs"
  proof (rule ccontr)
    assume "\<not> length ?rs \<le> 246"
    with space_ids_wrap [OF assms] that show False
      by (auto simp: list_all_length FIRST_AVAILABLE_SPACE_ID_def dest!: spec [of _ 246])
  qed
qed

theorem space_ids_distinct_witness:
  "distinct (map contractObjectSpaceId (index_records (many_records 247))) \<and>
   \<not> list_all (\<lambda>r. FIRST_AVAILABLE_SPACE_ID \<le> contractObjectSpaceId r) (index_records (many_records 247)) \<and>
   \<not> distinct (map contractObjectSpaceId (index_records (many_records 257)))"
  using space_ids_distinct [OF many_records_ok, of 247] space_ids_distinct [OF many_records_ok, of 257]
  by (simp add: many_records_def del: list_all_length)

section \<open>Initialization of contracts\<close>

text \<open>
  A recorded contract keeps its record: after any sequence of contract initializations, whatever
  they return or throw, initializing it again runs its initializer with the space id of the original
  record and leaves the persistence database unchanged.
\<close>

lemma initializeContract_recognizes:
  assumes "handler_ok index_records index_ok h" and "r \<in> set (index_records (persistence h))"
    and "run_calls contract_index_ops calls h = h1"
    and "f (chain h1) (contractObjectSpaceId r) = (c, Inr b)"
  shows "initializeContract contract_index_ops (cr_name r) f h1 =
    (h1\<lparr>chain := c,
        loadedContracts := if b then map_emplace (contractObjectSpaceId r) (cr_name r) (loadedContracts h1)
                           else loadedContracts h1\<rparr>, Inr b)"
  using contract_store.record_kept [OF assms(1,2), of calls] assms(3,4)
  by (cases b) (auto simp: initializeContract_def)

definition sample_handler :: "(nat, contract_index) chain_handler" where
  "sample_handler = \<lparr>basePath = Path [''home''], chain = 0, persistence = sample_index,
     isOpen = False, loadedContracts = [(10, ''voting'')]\<rparr>"

lemma sample_handler_ok: "handler_ok index_records index_ok sample_handler"
  using sample_index_ok
  by (simp add: handler_ok_def sample_handler_def sample_index_def contractObjectSpaceId_def
      FIRST_AVAILABLE_SPACE_ID_def map_ok_def)

text \<open>Every contract in the map of loaded contracts is listed under the space of its own record, and
  no sequence of initializations breaks this, failing and throwing initializers included.\<close>

lemma loaded_contracts_recorded:
  assumes "handler_ok index_records index_ok h"
  shows "handler_ok index_records index_ok (run_calls contract_index_ops calls h)"
  using assms by (simp add: run_calls_fold contract_calls.run_keeps)

lemma loaded_entry:
  assumes "handler_ok index_records index_ok h" "length (index_records (persistence h)) \<le> 246"
    and "(k, n) \<in> set (loadedContracts h)" "r \<in> set (index_records (persistence h))"
  shows "k = contractObjectSpaceId r \<longleftrightarrow> n = cr_name r"
proof -
  have ix: "index_ok (persistence h)" using assms(1) by (simp add: handler_ok_def)
  obtain q where q: "q \<in> set (index_records (persistence h))" "contractObjectSpaceId q = k" "cr_name q = n"
    using assms(1,3) by (auto simp: handler_ok_def list_all_iff list_ex_iff)
  have "contractObjectSpaceId q = contractObjectSpaceId r \<longleftrightarrow> q = r"
    using space_id_inj [OF ix assms(2)] q(1) assms(4) by (auto simp: inj_on_def)
  moreover have "cr_name q = cr_name r \<longleftrightarrow> q = r"
    using ix q(1) assms(4) by (auto simp: index_ok_def distinct_map inj_on_def)
  ultimately show ?thesis using q by auto
qed

lemma getSpaceId_entry:
  assumes "handler_ok index_records index_ok h" "length (index_records (persistence h)) \<le> 246"
    and "r \<in> set (index_records (persistence h))" "(contractObjectSpaceId r, cr_name r) \<in> set (loadedContracts h)"
  shows "getSpaceId h (cr_name r) = Inr (contractObjectSpaceId r)"
proof -
  obtain e where e: "find (\<lambda>pair. snd pair = cr_name r) (loadedContracts h) = Some e"
  proof (cases "find (\<lambda>pair. snd pair = cr_name r) (loadedContracts h)")
    case None
    then show ?thesis using assms(4) by (force simp: find_None_iff)
  qed
  then have "(fst e, snd e) \<in> set (loadedContracts h)" and n: "snd e = cr_name r"
    by (auto simp: find_Some_iff)
  from loaded_entry [OF assms(1,2) this(1) assms(3)] n have "fst e = contractObjectSpaceId r" by simp
  with e show ?thesis by (simp add: getSpaceId_def)
qed

text \<open>After a successful initialization, while there are at most 246 records, \<open>getSpaceId\<close> of the
  contract is the space id of its record, and the map of loaded contracts lists it there.\<close>

lemma initialized_space:
  assumes "handler_ok index_records index_ok h"
    and "initializeContract contract_index_ops name f h = (h1, Inr True)"
    and "length (index_records (persistence h1)) \<le> 246"
  shows "\<exists>r \<in> set (index_records (persistence h1)). cr_name r = name \<and>
    getSpaceId h1 name = Inr (contractObjectSpaceId r) \<and>
    map_find (getLoadedContracts h1) (contractObjectSpaceId r) = Some name"
proof -
  have ok: "handler_ok index_records index_ok h1"
    using contract_store.initializeContract_ok [OF assms(1), of name f] assms(2) by simp
  have "index_ok (persistence h)" using assms(1) by (simp add: handler_ok_def)
  then obtain p r new where p: "contract_record_for contract_index_ops (persistence h) name = Inr (p, r)"
    "r \<in> set (index_records p)" "cr_name r = name"
    by (rule contract_store.record_for)
  then have h1: "persistence h1 = p"
    "loadedContracts h1 = map_emplace (contractObjectSpaceId r) name (loadedContracts h)"
    using assms(2) by (auto simp: initializeContract_def Let_def split: prod.splits sum.splits if_splits)
  have maps: "map_ok (loadedContracts h)" "map_ok (loadedContracts h1)"
    using assms(1) ok by (simp_all add: handler_ok_def)
  obtain v where v: "map_find (loadedContracts h1) (contractObjectSpaceId r) = Some v"
    using stdmap.emplace_adds [OF maps(1)] stdmap.emplace_keeps [OF maps(1)] h1(2) by (metis not_None_eq)
  then have "(contractObjectSpaceId r, v) \<in> set (loadedContracts h1)"
    using maps(2) by (simp add: map_find_entry)
  moreover have r: "r \<in> set (index_records (persistence h1))" using p(2) h1(1) by simp
  ultimately have "v = name" using loaded_entry [OF ok assms(3)] p(3) by blast
  with v have find: "map_find (loadedContracts h1) (contractObjectSpaceId r) = Some name" by simp
  then have "(contractObjectSpaceId r, cr_name r) \<in> set (loadedContracts h1)"
    using maps(2) p(3) by (simp add: map_find_entry)
  from getSpaceId_entry [OF ok assms(3) r this] find r p(3) show ?thesis
    unfolding getLoadedContracts_def by blast
qed

definition sample_handler_after :: "(nat, contract_index) chain_handler" where
  "sample_handler_after = sample_handler\<lparr>chain := 1,
     persistence := \<lparr>next_number = 3,
       index_records = index_records sample_index @ [\<lparr>id_number = 2, cr_name = ''oracle''\<rparr>]\<rparr>,
     loadedContracts := [(10, ''voting''), (12, ''oracle'')]\<rparr>"

lemma sample_handler_after:
  "initializeContract contract_index_ops ''oracle'' (\<lambda>c k. (c + 1, Inr True)) sample_handler =
     (sample_handler_after, Inr True)"
  by (simp add: initializeContract_def contract_record_for_def contract_index_ops_def
      index_lower_bound_def index_create_def sample_handler_def sample_index_def Let_def
      sample_handler_after_def contractObjectSpaceId_def FIRST_AVAILABLE_SPACE_ID_def)

section \<open>The genesis state\<close>

text \<open>What the code relies on in the JSON library: reading back a printed genesis state (with the
  newline that the file ends with) gives the state, except that the chain id is not part of the JSON
  and comes back unset; so printing does not depend on it.\<close>

definition json_ok :: "('g, 'h) genesis_env \<Rightarrow> bool" where
  "json_ok env \<longleftrightarrow>
     (\<forall>g. parse_genesis env MAX_RECURSION_DEPTH (genesis_to_string env g @ [CHR 0x0A]) =
            Inr (g\<lparr>initial_chain_id := no_chain_id env\<rparr>)) \<and>
     (\<forall>g i. genesis_to_string env (g\<lparr>initial_chain_id := i\<rparr>) = genesis_to_string env g)"

text \<open>The genesis state is computed once and for all: when the file is missing it is created and
  written, and computing it again, at any later time and with any other default genesis, reads the
  same state and the same chain id from the file and leaves the files alone.\<close>

lemma computeGenesis_stable:
  assumes "json_ok env" and "fs p = None" and "computeGenesis env p fs = (fs1, Inr g)"
  shows "computeGenesis (env\<lparr>time_now := later, development_genesis := other\<rparr>) p fs1 = (fs1, Inr g)"
  using assms by (auto simp: computeGenesis_def json_ok_def Let_def)

definition sample_env :: "(unit, string) genesis_env" where
  "sample_env = \<lparr>
     parse_genesis = (\<lambda>depth s. Inr \<lparr>initial_timestamp = of_nat (length s - 1), initial_chain_id = ''none'',
                               genesis_rest = ()\<rparr>),
     genesis_to_string = (\<lambda>g. replicate (unat (initial_timestamp g)) CHR ''t''),
     sha256 = (\<lambda>s. s), no_chain_id = ''none'', time_now = 13, default_block_interval = 5,
     development_genesis = ()\<rparr>"

lemma sample_env_ok: "json_ok sample_env"
  by (simp add: json_ok_def sample_env_def)

text \<open>The development genesis starts on a block boundary: its time is a multiple of the block
  interval, not later than now and less than one interval before now.\<close>

lemma genesis_time_on_boundary:
  assumes "fs p = None" and "0 < default_block_interval env"
    and "computeGenesis env p fs = (fs1, Inr g)"
  shows "initial_timestamp g mod default_block_interval env = 0 \<and>
    initial_timestamp g \<le> time_now env \<and>
    time_now env - initial_timestamp g < default_block_interval env"
proof -
  let ?t = "time_now env" and ?d = "default_block_interval env"
  have g: "initial_timestamp g = ?t - ?t mod ?d"
    using assms(1,3) by (auto simp: computeGenesis_def Let_def)
  have d: "0 < unat ?d" using assms(2) by (simp add: word_less_nat_alt)
  have le: "?t mod ?d \<le> ?t" by (simp add: word_le_nat_alt unat_mod_distrib)
  have n: "unat (initial_timestamp g) = unat ?t - unat ?t mod unat ?d"
    using le by (simp add: g unat_sub unat_mod_distrib)
  have "unat (initial_timestamp g mod ?d) = 0"
    by (simp add: unat_mod_distrib n minus_mod_eq_mult_div)
  moreover have "initial_timestamp g \<le> ?t" by (simp add: word_le_nat_alt n)
  moreover have "?t - initial_timestamp g = ?t mod ?d" by (simp add: g)
  moreover have "?t mod ?d < ?d" using d by (simp add: word_less_nat_alt unat_mod_distrib)
  ultimately show ?thesis by (simp add: unat_eq_zero)
qed

end
