(* ===== verification/Table_Monitor.thy ===== *)
theory Table_Monitor
  imports Chain_Handler
begin

text \<open>
  The observers of contract databases in \<open>Modules/ChainHandler.cpp\<close>: \<open>TableMonitor\<close>, a secondary
  index that turns the database's callbacks into notifications, and \<open>MultiTableMonitor\<close>, which attaches
  one to every table of a contract's object space. The database is Graphene's and the signals are
  Boost's: the slots connected to a signal, the database's indexes and its two operations on secondary
  indexes are arguments; the monitors themselves live in a heap, because the database keeps pointers
  to them and they keep pointers to the signals of the contract monitor.
\<close>

section \<open>TableMonitor\<close>

datatype signal = Sig_loaded | Sig_created | Sig_deleted | Sig_modified

text \<open>A pointer to a signal: null, or a signal of the contract monitor with the given identity.\<close>

type_synonym signal_ptr = "(nat \<times> signal) option"

text \<open>Variant objects: those the database gives, and those built by \<open>mutable_variant_object\<close>.\<close>

datatype 'o variant_object = Obj 'o | MutObj "(string \<times> 'o variant_object) list"

record 'o table_monitor =
  typeId :: u8
  object_loaded_signal :: signal_ptr
  object_created_signal :: signal_ptr
  object_deleted_signal :: signal_ptr
  object_modified_signal :: signal_ptr
  preModifiedObject :: "'o variant_object option"

definition new_TableMonitor :: "'o table_monitor" where
  "new_TableMonitor = \<lparr>typeId = 0, object_loaded_signal = None, object_created_signal = None,
     object_deleted_signal = None, object_modified_signal = None, preModifiedObject = None\<rparr>"

text \<open>The environment: reading an object, the value a moved-from object has, which contract monitors
  exist, and what their connected slots do to the world.\<close>

record ('obj, 'o, 'w) monitor_env =
  to_object :: "'obj \<Rightarrow> 'o variant_object res"
  moved_from :: "'o variant_object"
  alive :: "nat \<Rightarrow> bool"
  slots :: "nat \<Rightarrow> signal \<Rightarrow> u8 \<Rightarrow> 'o variant_object \<Rightarrow> 'w \<Rightarrow> 'w \<times> unit res"

definition emit_signal ::
  "('obj, 'o, 'w) monitor_env \<Rightarrow> signal_ptr \<Rightarrow> u8 \<Rightarrow> 'o variant_object \<Rightarrow> 'w \<Rightarrow> 'w \<times> unit res" where
  "emit_signal env p t v w =
     (case p of
        None \<Rightarrow> (w, Inl (UB ''null signal''))
      | Some (i, s) \<Rightarrow> if alive env i then slots env i s t v w
                       else (w, Inl (UB ''signal of a destroyed monitor'')))"

definition not_initialized :: cpp_error where
  "not_initialized = FcAssert ''[ChainHandler] Table Monitor used before being initialized!''"

text \<open>The body that \<open>object_loaded\<close>, \<open>object_created\<close> and \<open>object_removed\<close> share.\<close>

definition notify_object ::
  "('obj, 'o, 'w) monitor_env \<Rightarrow> signal_ptr \<Rightarrow> u8 \<Rightarrow> 'obj \<Rightarrow> 'w \<Rightarrow> 'w \<times> unit res" where
  "notify_object env p t obj w =
     (if p = None then (w, Inl not_initialized)
      else case to_object env obj of
             Inl e \<Rightarrow> (w, Inl e)
           | Inr v \<Rightarrow> emit_signal env p t v w)"

definition object_loaded ::
  "('obj, 'o, 'w) monitor_env \<Rightarrow> 'obj \<Rightarrow> 'o table_monitor \<Rightarrow> 'w \<Rightarrow> 'o table_monitor \<times> 'w \<times> unit res" where
  "object_loaded env obj m w = (m, notify_object env (object_loaded_signal m) (typeId m) obj w)"

definition object_created ::
  "('obj, 'o, 'w) monitor_env \<Rightarrow> 'obj \<Rightarrow> 'o table_monitor \<Rightarrow> 'w \<Rightarrow> 'o table_monitor \<times> 'w \<times> unit res" where
  "object_created env obj m w = (m, notify_object env (object_created_signal m) (typeId m) obj w)"

definition object_removed ::
  "('obj, 'o, 'w) monitor_env \<Rightarrow> 'obj \<Rightarrow> 'o table_monitor \<Rightarrow> 'w \<Rightarrow> 'o table_monitor \<times> 'w \<times> unit res" where
  "object_removed env obj m w = (m, notify_object env (object_deleted_signal m) (typeId m) obj w)"

definition about_to_modify ::
  "('obj, 'o, 'w) monitor_env \<Rightarrow> 'obj \<Rightarrow> 'o table_monitor \<Rightarrow> 'w \<Rightarrow> 'o table_monitor \<times> 'w \<times> unit res" where
  "about_to_modify env before m w =
     (case to_object env before of
        Inl e \<Rightarrow> (m, w, Inl e)
      | Inr v \<Rightarrow> (m\<lparr>preModifiedObject := Some v\<rparr>, w, Inr ()))"

text \<open>\<open>object_modified\<close> moves the remembered object into the notification, and forgets it only after
  the slots have returned.\<close>

definition object_modified ::
  "('obj, 'o, 'w) monitor_env \<Rightarrow> 'obj \<Rightarrow> 'o table_monitor \<Rightarrow> 'w \<Rightarrow> 'o table_monitor \<times> 'w \<times> unit res" where
  "object_modified env after m w =
     (if object_modified_signal m = None then (m, w, Inl not_initialized)
      else case to_object env after of
             Inl e \<Rightarrow> (m, w, Inl e)
           | Inr v \<Rightarrow>
               (case preModifiedObject m of
                  None \<Rightarrow> (m, w, Inr ())
                | Some before \<Rightarrow>
                    (let change = MutObj [(''from'', before), (''to'', v)];
                         m' = m\<lparr>preModifiedObject := Some (moved_from env)\<rparr>;
                         (w', r) = emit_signal env (object_modified_signal m) (typeId m) change w
                     in case r of
                          Inl e \<Rightarrow> (m', w', Inl e)
                        | Inr _ \<Rightarrow> (m'\<lparr>preModifiedObject := None\<rparr>, w', Inr ()))))"

text \<open>The calls a database makes to a secondary index of a table.\<close>

datatype 'obj index_event =
    Object_loaded 'obj
  | Object_created 'obj
  | Object_removed 'obj
  | About_to_modify 'obj
  | Object_modified 'obj

fun handle_event ::
  "('obj, 'o, 'w) monitor_env \<Rightarrow> 'obj index_event \<Rightarrow> 'o table_monitor \<Rightarrow> 'w \<Rightarrow>
   'o table_monitor \<times> 'w \<times> unit res" where
  "handle_event env (Object_loaded obj) = object_loaded env obj"
| "handle_event env (Object_created obj) = object_created env obj"
| "handle_event env (Object_removed obj) = object_removed env obj"
| "handle_event env (About_to_modify obj) = about_to_modify env obj"
| "handle_event env (Object_modified obj) = object_modified env obj"

fun index_events ::
  "('obj, 'o, 'w) monitor_env \<Rightarrow> 'obj index_event list \<Rightarrow> 'o table_monitor \<Rightarrow> 'w \<Rightarrow>
   'o table_monitor \<times> 'w \<times> unit res" where
  "index_events env [] m w = (m, w, Inr ())"
| "index_events env (e # es) m w =
     (case handle_event env e m w of
        (m', w', Inl x) \<Rightarrow> (m', w', Inl x)
      | (m', w', Inr _) \<Rightarrow> index_events env es m' w')"


text \<open>What a table's owner does, the calls each such action makes, and the notifications due: an
  aborted modification is announced and never completed.\<close>

datatype 'obj table_action =
    Load 'obj
  | Create 'obj
  | Remove 'obj
  | Modify 'obj 'obj
  | Aborted_modify 'obj

fun action_events :: "'obj table_action \<Rightarrow> 'obj index_event list" where
  "action_events (Load a) = [Object_loaded a]"
| "action_events (Create a) = [Object_created a]"
| "action_events (Remove a) = [Object_removed a]"
| "action_events (Modify a b) = [About_to_modify a, Object_modified b]"
| "action_events (Aborted_modify a) = [About_to_modify a]"

fun action_notices :: "('obj \<Rightarrow> 'o variant_object) \<Rightarrow> 'obj table_action \<Rightarrow> (signal \<times> 'o variant_object) list" where
  "action_notices val (Load a) = [(Sig_loaded, val a)]"
| "action_notices val (Create a) = [(Sig_created, val a)]"
| "action_notices val (Remove a) = [(Sig_deleted, val a)]"
| "action_notices val (Modify a b) = [(Sig_modified, MutObj [(''from'', val a), (''to'', val b)])]"
| "action_notices val (Aborted_modify a) = []"

text \<open>A monitor attached for table \<open>t\<close> to the signals of contract monitor \<open>i\<close>.\<close>

definition wired :: "nat \<Rightarrow> u8 \<Rightarrow> 'o table_monitor \<Rightarrow> bool" where
  "wired i t m \<longleftrightarrow> typeId m = t \<and>
     object_loaded_signal m = Some (i, Sig_loaded) \<and> object_created_signal m = Some (i, Sig_created) \<and>
     object_deleted_signal m = Some (i, Sig_deleted) \<and> object_modified_signal m = Some (i, Sig_modified)"

lemmas event_defs = object_loaded_def object_created_def object_removed_def about_to_modify_def
  object_modified_def notify_object_def emit_signal_def

lemma wired_pre [simp]: "wired i t (m\<lparr>preModifiedObject := v\<rparr>) = wired i t m"
  by (simp add: wired_def)

lemma index_events_append:
  "index_events env (es @ es') m w =
     (case index_events env es m w of
        (m', w', Inl x) \<Rightarrow> (m', w', Inl x)
      | (m', w', Inr _) \<Rightarrow> index_events env es' m' w')"
  by (induction env es m w rule: index_events.induct) (auto split: prod.splits sum.splits)

text \<open>Slots that return, and what a list of notifications does through them.\<close>

definition slots_ok :: "('obj, 'o, 'w) monitor_env \<Rightarrow> nat \<Rightarrow> ('obj \<Rightarrow> 'o variant_object) \<Rightarrow> bool" where
  "slots_ok env i val \<longleftrightarrow> alive env i \<and> (\<forall>obj. to_object env obj = Inr (val obj)) \<and>
     (\<forall>s t v w. snd (slots env i s t v w) = Inr ())"

definition deliver ::
  "('obj, 'o, 'w) monitor_env \<Rightarrow> nat \<Rightarrow> u8 \<Rightarrow> (signal \<times> 'o variant_object) list \<Rightarrow> 'w \<Rightarrow> 'w" where
  "deliver env i t = fold (\<lambda>(s, v) w. fst (slots env i s t v w))"

lemma slots_return: "slots_ok env i val \<Longrightarrow> slots env i s t v w = (fst (slots env i s t v w), Inr ())"
  by (metis prod.collapse slots_ok_def)

lemma emit_deliver:
  assumes "slots_ok env i val"
  shows "emit_signal env (Some (i, s)) t v w = (deliver env i t [(s, v)] w, Inr ())"
  using assms slots_return [OF assms, of s t v w] by (simp add: emit_signal_def slots_ok_def deliver_def)

lemma notify_deliver:
  assumes "slots_ok env i val"
  shows "notify_object env (Some (i, s)) t obj w = (deliver env i t [(s, val obj)] w, Inr ())"
proof -
  have "to_object env obj = Inr (val obj)" using assms by (simp add: slots_ok_def)
  then show ?thesis by (simp add: notify_object_def emit_deliver [OF assms])
qed

lemma action_events_deliver:
  assumes "wired i t m" "slots_ok env i val"
  shows "\<exists>v. index_events env (action_events a) m w =
    (m\<lparr>preModifiedObject := v\<rparr>, deliver env i t (action_notices val a) w, Inr ())"
proof -
  note w = assms(1) [unfolded wired_def]
  have val: "to_object env obj = Inr (val obj)" for obj using assms(2) by (simp add: slots_ok_def)
  have same: "m = m\<lparr>preModifiedObject := preModifiedObject m\<rparr>" by simp
  show ?thesis
  proof (cases a)
    case (Modify x y)
    then show ?thesis
      using w by (auto simp: about_to_modify_def object_modified_def val emit_deliver [OF assms(2)])
  next
    case (Aborted_modify x)
    then show ?thesis by (auto simp: about_to_modify_def val deliver_def)
  qed (use w same in \<open>auto simp: object_loaded_def object_created_def object_removed_def
      notify_deliver [OF assms(2)] intro: exI [of _ "preModifiedObject m"]\<close>)
qed

lemma deliver_append: "deliver env i t (xs @ ys) w = deliver env i t ys (deliver env i t xs w)"
  by (simp add: deliver_def)

text \<open>
  C16. An attached monitor reports exactly what happened to its table: any sequence of loads,
  creations, removals, modifications and aborted modifications, from any remembered object, gives
  in order one notification per completed action, on the signal for it and with the table's type id,
  a modification carrying its own object before and after.
\<close>

theorem monitor_reports_actions:
  assumes "wired i t m" and "slots_ok env i val"
  shows "\<exists>v. index_events env (concat (map action_events actions)) m w =
    (m\<lparr>preModifiedObject := v\<rparr>, deliver env i t (concat (map (action_notices val) actions)) w, Inr ())"
  using assms(1)
proof (induction actions arbitrary: m w)
  case Nil
  have "m = m\<lparr>preModifiedObject := preModifiedObject m\<rparr>" by simp
  then show ?case unfolding deliver_def by (intro exI [of _ "preModifiedObject m"]) simp
next
  case (Cons a actions)
  obtain v where v: "index_events env (action_events a) m w =
      (m\<lparr>preModifiedObject := v\<rparr>, deliver env i t (action_notices val a) w, Inr ())"
    using action_events_deliver [OF Cons.prems assms(2)] by blast
  have "wired i t (m\<lparr>preModifiedObject := v\<rparr>)" using Cons.prems by simp
  from Cons.IH [OF this, of "deliver env i t (action_notices val a) w"] v show ?case
    by (auto simp: index_events_append deliver_append)
qed

definition monitor_sample_env :: "(nat, nat, (signal \<times> u8 \<times> nat variant_object) list) monitor_env" where
  "monitor_sample_env = \<lparr>to_object = (\<lambda>n. Inr (Obj n)), moved_from = MutObj [], alive = (\<lambda>i. i = 0),
     slots = (\<lambda>i s t v w. (w @ [(s, t, v)], Inr ()))\<rparr>"

definition sample_monitor :: "nat table_monitor" where
  "sample_monitor = \<lparr>typeId = 3, object_loaded_signal = Some (0, Sig_loaded),
     object_created_signal = Some (0, Sig_created), object_deleted_signal = Some (0, Sig_deleted),
     object_modified_signal = Some (0, Sig_modified), preModifiedObject = Some (Obj 99)\<rparr>"

theorem monitor_reports_actions_witness:
  "\<exists>v. index_events monitor_sample_env
      (concat (map action_events [Create 1, Aborted_modify 1, Modify 1 2, Remove 2])) sample_monitor [] =
    (sample_monitor\<lparr>preModifiedObject := v\<rparr>,
     [(Sig_created, 3, Obj 1), (Sig_modified, 3, MutObj [(''from'', Obj 1), (''to'', Obj 2)]),
      (Sig_deleted, 3, Obj 2)], Inr ())"
  using monitor_reports_actions [of 0 3 sample_monitor monitor_sample_env Obj
      "[Create 1, Aborted_modify 1, Modify 1 2, Remove 2]" "[]"]
  by (simp add: wired_def sample_monitor_def slots_ok_def monitor_sample_env_def deliver_def)

text \<open>A finished modification, on every branch of the code: before the monitor is set up it is
  refused; without a remembered object nothing is sent; otherwise one notification pairs the
  remembered object with the new one, and the remembered object is dropped if the slots return, while
  a throwing slot leaves its error to the database and a moved-from object in the monitor.\<close>

lemma object_modified_cases:
  assumes "to_object env after = Inr v"
  shows "object_modified env after m w =
    (case (object_modified_signal m, preModifiedObject m) of
       (None, _) \<Rightarrow> (m, w, Inl not_initialized)
     | (Some _, None) \<Rightarrow> (m, w, Inr ())
     | (Some (i, s), Some before) \<Rightarrow>
         if \<not> alive env i
         then (m\<lparr>preModifiedObject := Some (moved_from env)\<rparr>, w, Inl (UB ''signal of a destroyed monitor''))
         else (case slots env i s (typeId m) (MutObj [(''from'', before), (''to'', v)]) w of
                 (w', Inr _) \<Rightarrow> (m\<lparr>preModifiedObject := None\<rparr>, w', Inr ())
               | (w', Inl e) \<Rightarrow> (m\<lparr>preModifiedObject := Some (moved_from env)\<rparr>, w', Inl e)))"
  using assms by (auto simp: object_modified_def emit_signal_def Let_def split: option.split prod.split sum.split)

section \<open>MultiTableMonitor\<close>

text \<open>The monitored database: its indexes in an object space, and its operations on secondary indexes.
  Adding one allocates it and returns its address, or throws.\<close>

record 'd db_ops =
  indexes_of :: "'d \<Rightarrow> u8 \<Rightarrow> (u8 \<times> u8) list res"
  add_secondary_index :: "u8 \<times> u8 \<Rightarrow> 'd \<Rightarrow> 'd \<times> nat res"
  delete_secondary_index :: "u8 \<times> u8 \<Rightarrow> nat \<Rightarrow> 'd \<Rightarrow> 'd \<times> unit res"

type_synonym 'o monitor_heap = "nat \<Rightarrow> 'o table_monitor"

text \<open>A contract monitor, with an identity that the signal pointers name.\<close>

record contract_monitor =
  monitor_id :: nat
  contractName :: string
  spaceId :: u8
  monitors :: "nat list"

text \<open>The body of the constructor's loop for one index. The handler accepts only a thrown
  \<open>fc::exception_ptr\<close>, not the exceptions that the libraries throw by value.\<close>

definition attach_monitor ::
  "'d db_ops \<Rightarrow> u8 \<times> u8 \<Rightarrow> 'd \<times> 'o monitor_heap \<times> contract_monitor \<Rightarrow>
   ('d \<times> 'o monitor_heap \<times> contract_monitor) \<times> unit res" where
  "attach_monitor ops idx st =
     (let (d, heap, cm) = st
      in case add_secondary_index ops idx d of
           (d', Inl e) \<Rightarrow> ((d', heap, cm), if is_fc_exception_ptr e then Inr () else Inl e)
         | (d', Inr p) \<Rightarrow>
             (let i = monitor_id cm;
                  m = new_TableMonitor\<lparr>typeId := snd idx,
                        object_loaded_signal := Some (i, Sig_loaded),
                        object_created_signal := Some (i, Sig_created),
                        object_deleted_signal := Some (i, Sig_deleted),
                        object_modified_signal := Some (i, Sig_modified)\<rparr>
              in ((d', heap(p := m), cm\<lparr>monitors := monitors cm @ [p]\<rparr>), Inr ())))"

fun attach_monitors ::
  "'d db_ops \<Rightarrow> (u8 \<times> u8) list \<Rightarrow> 'd \<times> 'o monitor_heap \<times> contract_monitor \<Rightarrow>
   ('d \<times> 'o monitor_heap \<times> contract_monitor) \<times> unit res" where
  "attach_monitors ops [] st = (st, Inr ())"
| "attach_monitors ops (idx # idxs) st =
     (case attach_monitor ops idx st of
        (st', Inl e) \<Rightarrow> (st', Inl e)
      | (st', Inr _) \<Rightarrow> attach_monitors ops idxs st')"

text \<open>The constructor: when the loop throws there is no object, and its destructor does not run.\<close>

definition MultiTableMonitor ::
  "'d db_ops \<Rightarrow> nat \<Rightarrow> string \<Rightarrow> u8 \<Rightarrow> 'd \<Rightarrow> 'o monitor_heap \<Rightarrow>
   'd \<times> 'o monitor_heap \<times> contract_monitor res" where
  "MultiTableMonitor ops i name space d heap =
     (case indexes_of ops d space of
        Inl e \<Rightarrow> (d, heap, Inl e)
      | Inr idxs \<Rightarrow>
          (let cm = \<lparr>monitor_id = i, contractName = name, spaceId = space, monitors = []\<rparr>;
               ((d', heap', cm'), r) = attach_monitors ops idxs (d, heap, cm)
           in (d', heap', rbind r (\<lambda>_. Inr cm'))))"

text \<open>The destructor; an exception in it ends the program.\<close>

fun delete_monitors ::
  "'d db_ops \<Rightarrow> u8 \<Rightarrow> 'o monitor_heap \<Rightarrow> nat list \<Rightarrow> 'd \<Rightarrow> 'd \<times> unit res" where
  "delete_monitors ops space heap [] d = (d, Inr ())"
| "delete_monitors ops space heap (p # ps) d =
     (case delete_secondary_index ops (space, typeId (heap p)) p d of
        (d', Inl e) \<Rightarrow> (d', Inl (Terminate ''exception in a destructor''))
      | (d', Inr _) \<Rightarrow> delete_monitors ops space heap ps d')"

definition destroy_MultiTableMonitor ::
  "'d db_ops \<Rightarrow> 'o monitor_heap \<Rightarrow> contract_monitor \<Rightarrow> 'd \<Rightarrow> 'd \<times> unit res" where
  "destroy_MultiTableMonitor ops heap cm d = delete_monitors ops (spaceId cm) heap (monitors cm) d"

text \<open>The three overloads of \<open>observeContract\<close>: with a space id and a name, with a space id, with a
  name. The chain database is that of the handler; the pair is the handler and the heap.\<close>

definition observeContract ::
  "'d db_ops \<Rightarrow> nat \<Rightarrow> u8 \<Rightarrow> string \<Rightarrow> ('d, 'p) chain_handler \<times> 'o monitor_heap \<Rightarrow>
   (('d, 'p) chain_handler \<times> 'o monitor_heap) \<times> contract_monitor res" where
  "observeContract ops i space name s =
     (let (h, heap) = s;
          (d, heap', r) = MultiTableMonitor ops i name space (chain h) heap
      in ((h\<lparr>chain := d\<rparr>, heap'), r))"

definition observeContract_space ::
  "'d db_ops \<Rightarrow> nat \<Rightarrow> u8 \<Rightarrow> ('d, 'p) chain_handler \<times> 'o monitor_heap \<Rightarrow>
   (('d, 'p) chain_handler \<times> 'o monitor_heap) \<times> contract_monitor res" where
  "observeContract_space ops i space s =
     (case map_find (loadedContracts (fst s)) space of
        Some name \<Rightarrow> observeContract ops i space name s
      | None \<Rightarrow> observeContract ops i space ''Unknown Contract'' s)"

definition observeContract_name ::
  "'d db_ops \<Rightarrow> nat \<Rightarrow> string \<Rightarrow> ('d, 'p) chain_handler \<times> 'o monitor_heap \<Rightarrow>
   (('d, 'p) chain_handler \<times> 'o monitor_heap) \<times> contract_monitor res" where
  "observeContract_name ops i name s =
     (case getSpaceId (fst s) name of
        Inl e \<Rightarrow> (s, Inl e)
      | Inr space \<Rightarrow> observeContract ops i space name s)"

section \<open>Attaching and detaching\<close>

text \<open>What the code relies on in the database, over the list of attached secondary indexes: adding one to
  a table that the database lists is refused with a fixed error and no effect on it, or appends a fresh
  object, and leaves the tables as they are; deleting an attached one removes it. Of tables that are not
  listed, nothing is asked.\<close>

definition listed :: "'d db_ops \<Rightarrow> 'd \<Rightarrow> u8 \<times> u8 \<Rightarrow> bool" where
  "listed ops d idx \<longleftrightarrow> (\<exists>space ts. indexes_of ops d space = Inr ts \<and> idx \<in> set ts)"

definition host_ok ::
  "'d db_ops \<Rightarrow> ('d \<Rightarrow> ((u8 \<times> u8) \<times> nat) list) \<Rightarrow> (u8 \<times> u8 \<Rightarrow> cpp_error option) \<Rightarrow> bool" where
  "host_ok ops attached refuses \<longleftrightarrow>
     (\<forall>idx d. listed ops d idx \<longrightarrow> (case refuses idx of
        Some e \<Rightarrow> (\<exists>d'. add_secondary_index ops idx d = (d', Inl e) \<and> attached d' = attached d \<and>
                   indexes_of ops d' = indexes_of ops d)
      | None \<Rightarrow> (\<exists>d' p. add_secondary_index ops idx d = (d', Inr p) \<and>
                   p \<notin> snd ` set (attached d) \<and> attached d' = attached d @ [(idx, p)] \<and>
                   indexes_of ops d' = indexes_of ops d))) \<and>
     (\<forall>idx p d. (idx, p) \<in> set (attached d) \<longrightarrow>
        (\<exists>d'. delete_secondary_index ops idx p d = (d', Inr ()) \<and>
              attached d' = remove1 (idx, p) (attached d)))"

definition goes_on :: "(u8 \<times> u8 \<Rightarrow> cpp_error option) \<Rightarrow> u8 \<times> u8 \<Rightarrow> bool" where
  "goes_on refuses idx = (case refuses idx of None \<Rightarrow> True | Some e \<Rightarrow> is_fc_exception_ptr e)"

definition accepted :: "(u8 \<times> u8 \<Rightarrow> cpp_error option) \<Rightarrow> (u8 \<times> u8) list \<Rightarrow> (u8 \<times> u8) list" where
  "accepted refuses idxs = filter (\<lambda>idx. refuses idx = None) (takeWhile (goes_on refuses) idxs)"

definition attach_outcome :: "(u8 \<times> u8 \<Rightarrow> cpp_error option) \<Rightarrow> (u8 \<times> u8) list \<Rightarrow> unit res" where
  "attach_outcome refuses idxs =
     (case dropWhile (goes_on refuses) idxs of [] \<Rightarrow> Inr () | idx # _ \<Rightarrow> Inl (the (refuses idx)))"

text \<open>The pointers \<open>ps\<close> are fresh monitors of the indexes \<open>idxs\<close>, wired to contract monitor \<open>i\<close>.\<close>

definition fresh_monitors ::
  "nat \<Rightarrow> ((u8 \<times> u8) \<times> nat) list \<Rightarrow> (u8 \<times> u8) list \<Rightarrow> 'o monitor_heap \<Rightarrow> 'o monitor_heap \<Rightarrow> nat list \<Rightarrow> bool" where
  "fresh_monitors i old idxs heap heap' ps \<longleftrightarrow>
     list_all2 (\<lambda>idx p. wired i (snd idx) (heap' p)) idxs ps \<and> distinct ps \<and>
     set ps \<inter> snd ` set old = {} \<and> (\<forall>p. p \<notin> set ps \<longrightarrow> heap' p = heap p)"

lemma host_add:
  assumes "host_ok ops attached refuses" and "listed ops d idx"
  obtains (refused) e d' where "refuses idx = Some e" "add_secondary_index ops idx d = (d', Inl e)"
      "attached d' = attached d" "indexes_of ops d' = indexes_of ops d"
    | (added) d' p where "refuses idx = None" "add_secondary_index ops idx d = (d', Inr p)"
      "p \<notin> snd ` set (attached d)" "attached d' = attached d @ [(idx, p)]" "indexes_of ops d' = indexes_of ops d"
  using assms(1) [unfolded host_ok_def, THEN conjunct1, rule_format, OF assms(2)] refused added
  by (cases "refuses idx") auto

lemma listed_tables: "indexes_of ops d space = Inr ts \<Longrightarrow> \<forall>idx \<in> set ts. listed ops d idx"
  by (auto simp: listed_def)

lemma attach_monitors_spec:
  assumes "host_ok ops attached refuses"
  shows "\<forall>idx \<in> set idxs. listed ops d idx \<Longrightarrow> \<exists>d' heap' ps. attach_monitors ops idxs (d, heap, cm) =
      ((d', heap', cm\<lparr>monitors := monitors cm @ ps\<rparr>), attach_outcome refuses idxs) \<and>
    attached d' = attached d @ zip (accepted refuses idxs) ps \<and>
    fresh_monitors (monitor_id cm) (attached d) (accepted refuses idxs) heap heap' ps"
proof (induction idxs arbitrary: d heap cm)
  case Nil
  then show ?case by (simp add: accepted_def attach_outcome_def fresh_monitors_def)
next
  case (Cons idx idxs)
  have "listed ops d idx" using Cons.prems by simp
  with assms show ?case
  proof (cases rule: host_add)
    case (refused e d')
    then have "\<forall>idx \<in> set idxs. listed ops d' idx" using Cons.prems by (simp add: listed_def)
    with refused show ?thesis
      using Cons.IH [of d' heap cm]
      by (cases "is_fc_exception_ptr e")
        (auto simp: attach_monitor_def goes_on_def accepted_def attach_outcome_def fresh_monitors_def)
  next
    case (added d1 p)
    let ?m = "\<lparr>typeId = snd idx, object_loaded_signal = Some (monitor_id cm, Sig_loaded),
      object_created_signal = Some (monitor_id cm, Sig_created),
      object_deleted_signal = Some (monitor_id cm, Sig_deleted),
      object_modified_signal = Some (monitor_id cm, Sig_modified), preModifiedObject = None\<rparr>"
    let ?cm = "cm\<lparr>monitors := monitors cm @ [p]\<rparr>" and ?heap = "heap(p := ?m)"
    have "\<forall>idx \<in> set idxs. listed ops d1 idx" using added(5) Cons.prems by (simp add: listed_def)
    from Cons.IH [OF this, of ?heap ?cm] obtain d' heap' ps where run:
      "attach_monitors ops idxs (d1, ?heap, ?cm) =
         ((d', heap', ?cm\<lparr>monitors := monitors ?cm @ ps\<rparr>), attach_outcome refuses idxs)"
      "attached d' = attached d1 @ zip (accepted refuses idxs) ps"
      "fresh_monitors (monitor_id ?cm) (attached d1) (accepted refuses idxs) ?heap heap' ps"
      by blast
    have head: "accepted refuses (idx # idxs) = idx # accepted refuses idxs"
      "attach_outcome refuses (idx # idxs) = attach_outcome refuses idxs"
      using added(1) by (simp_all add: accepted_def attach_outcome_def goes_on_def)
    from run(3) added(4) have p: "p \<notin> set ps" by (auto simp: fresh_monitors_def)
    with run(3) have "heap' p = ?m" by (simp add: fresh_monitors_def)
    then have "wired (monitor_id cm) (snd idx) (heap' p)" by (simp add: wired_def)
    with run(3) added(3,4) p have
      "fresh_monitors (monitor_id cm) (attached d) (idx # accepted refuses idxs) heap heap' (p # ps)"
      by (auto simp: fresh_monitors_def)
    moreover have "attach_monitors ops (idx # idxs) (d, heap, cm) =
        ((d', heap', cm\<lparr>monitors := monitors cm @ p # ps\<rparr>), attach_outcome refuses idxs)"
      using added(2) run(1) by (simp add: attach_monitor_def new_TableMonitor_def Let_def)
    ultimately show ?thesis using run(2) added(4) unfolding head by fastforce
  qed
qed

text \<open>
  A contract monitor is complete: when the tables of its space are refused only with an
  \<open>fc::exception_ptr\<close>, construction succeeds, attaches in order one fresh table monitor to every table
  that the database accepts, each wired to the monitor's own signals with its table's type id, and
  keeps exactly those pointers.
\<close>

lemma MultiTableMonitor_complete:
  assumes "host_ok ops attached refuses" and "indexes_of ops d space = Inr idxs"
    and "list_all (goes_on refuses) idxs"
  shows "\<exists>d' heap' ps.
    MultiTableMonitor ops i name space d heap =
      (d', heap', Inr \<lparr>monitor_id = i, contractName = name, spaceId = space, monitors = ps\<rparr>) \<and>
    attached d' = attached d @ zip (filter (\<lambda>idx. refuses idx = None) idxs) ps \<and>
    fresh_monitors i (attached d) (filter (\<lambda>idx. refuses idx = None) idxs) heap heap' ps"
proof -
  have "accepted refuses idxs = filter (\<lambda>idx. refuses idx = None) idxs"
    "attach_outcome refuses idxs = Inr ()"
    using assms(3) by (simp_all add: list_all_iff accepted_def attach_outcome_def takeWhile_eq_all_conv [THEN iffD2]
        dropWhile_eq_Nil_conv [THEN iffD2])
  then show ?thesis
    using attach_monitors_spec [OF assms(1) listed_tables [OF assms(2)], of heap
        "\<lparr>monitor_id = i, contractName = name, spaceId = space, monitors = []\<rparr>"]
    by (auto simp: MultiTableMonitor_def assms(2))
qed

text \<open>A concrete database: its indexes and the attached secondary indexes, addressed by consecutive
  numbers; table 9 is refused by value, table 8 with an \<open>fc::exception_ptr\<close>.\<close>

record sample_tables =
  all_indexes :: "(u8 \<times> u8) list"
  next_address :: nat
  attached_monitors :: "((u8 \<times> u8) \<times> nat) list"

definition sample_refuses :: "u8 \<times> u8 \<Rightarrow> cpp_error option" where
  "sample_refuses idx =
     (if snd idx = 9 then Some (FcException ''no such index'')
      else if snd idx = 8 then Some (FcExceptionPtr ''no such index'') else None)"

definition sample_db_ops :: "sample_tables db_ops" where
  "sample_db_ops = \<lparr>
     indexes_of = (\<lambda>d s. Inr (filter (\<lambda>idx. fst idx = s) (all_indexes d))),
     add_secondary_index = (\<lambda>idx d. case sample_refuses idx of
         Some e \<Rightarrow> (d, Inl e)
       | None \<Rightarrow> let p = Suc (fold max (map snd (attached_monitors d)) (next_address d)) in
                 (d\<lparr>next_address := p, attached_monitors := attached_monitors d @ [(idx, p)]\<rparr>, Inr p)),
     delete_secondary_index = (\<lambda>idx p d.
         (d\<lparr>attached_monitors := remove1 (idx, p) (attached_monitors d)\<rparr>, Inr ()))\<rparr>"

lemma fold_max_le: "x \<le> fold max xs x \<and> (\<forall>y \<in> set xs. y \<le> fold max xs x)" for x :: nat
  by (induction xs arbitrary: x) (auto, (meson le_trans max.cobounded1 max.cobounded2)+)

lemma fresh_address: "Suc (fold max (map snd A) n) \<notin> snd ` set A" for A :: "((u8 \<times> u8) \<times> nat) list"
  using fold_max_le [of n "map snd A"] by force

lemma sample_db_ops_ok: "host_ok sample_db_ops attached_monitors sample_refuses"
  using fresh_address by (auto simp: host_ok_def sample_db_ops_def Let_def split: option.split)

lemma handle_event_typeId: "typeId (fst (handle_event env e m w)) = typeId m"
  by (cases e) (auto simp: object_loaded_def object_created_def object_removed_def about_to_modify_def
      object_modified_def Let_def split: sum.split option.split prod.split)

lemma index_events_typeId: "typeId (fst (index_events env es m w)) = typeId m"
proof (induction env es m w rule: index_events.induct)
  case (2 env e es m w)
  then show ?case
    using handle_event_typeId [of env e m w] by (auto split: prod.split sum.split)
qed simp

lemma host_delete:
  assumes "host_ok ops attached refuses" "(idx, p) \<in> set (attached d)"
  obtains d' where "delete_secondary_index ops idx p d = (d', Inr ())"
    "attached d' = remove1 (idx, p) (attached d)"
  using assms(1) [unfolded host_ok_def, THEN conjunct2, rule_format, OF assms(2)] by blast

lemma remove1_by_pointer:
  assumes "distinct (map snd xs)" "(idx, p) \<in> set xs"
  shows "remove1 (idx, p) xs = filter (\<lambda>e. snd e \<noteq> p) xs"
  using assms
proof (induction xs)
  case (Cons e xs)
  show ?case
  proof (cases "e = (idx, p)")
    case True
    with Cons.prems(1) have "\<forall>e \<in> set xs. snd e \<noteq> p" by auto
    with True show ?thesis by (simp add: filter_id_conv)
  next
    case False
    with Cons.prems have "(idx, p) \<in> set xs" "snd e \<noteq> p" by (auto simp: image_iff)
    with Cons False show ?thesis by simp
  qed
qed simp

lemma delete_monitors_spec:
  assumes "host_ok ops attached refuses"
  shows "distinct (map snd (attached d)) \<Longrightarrow> distinct ps \<Longrightarrow>
    (\<forall>p \<in> set ps. ((space, typeId (heap p)), p) \<in> set (attached d)) \<Longrightarrow>
    \<exists>d'. delete_monitors ops space heap ps d = (d', Inr ()) \<and>
      attached d' = filter (\<lambda>e. snd e \<notin> set ps) (attached d)"
proof (induction ps arbitrary: d)
  case (Cons p ps)
  have p: "((space, typeId (heap p)), p) \<in> set (attached d)" using Cons.prems(3) by simp
  obtain d1 where d1: "delete_secondary_index ops (space, typeId (heap p)) p d = (d1, Inr ())"
    "attached d1 = filter (\<lambda>e. snd e \<noteq> p) (attached d)"
    using host_delete [OF assms p] remove1_by_pointer [OF Cons.prems(1) p] by metis
  have "\<forall>q \<in> set ps. ((space, typeId (heap q)), q) \<in> set (attached d1)"
    using Cons.prems(2,3) d1(2) by auto
  moreover have "distinct (map snd (attached d1))"
    using Cons.prems(1) d1(2) by (simp add: distinct_map_filter)
  ultimately obtain d2 where "delete_monitors ops space heap ps d1 = (d2, Inr ())"
    "attached d2 = filter (\<lambda>e. snd e \<notin> set ps) (attached d1)"
    using Cons.IH Cons.prems(2) by fastforce
  with d1 show ?case by (simp add: conj_commute cong: filter_cong)
qed simp

text \<open>
  Destroying a contract monitor undoes its construction: whatever was attached or detached for
  others in between, and however the table monitors' other fields have changed, it deletes exactly its
  own table monitors from the database and nothing else, and terminates normally.
\<close>

lemma destroy_MultiTableMonitor_detaches:
  assumes "host_ok ops attached refuses" and "indexes_of ops d space = Inr idxs"
    and "list_all (\<lambda>idx. fst idx = space) idxs"
    and "MultiTableMonitor ops i name space d heap = (d1, heap1, Inr cm)"
    and "\<forall>p. typeId (heap2 p) = typeId (heap1 p)" and "distinct (map snd (attached d2))"
    and "filter (\<lambda>e. snd e \<in> set (monitors cm)) (attached d2) = filter (\<lambda>e. snd e \<in> set (monitors cm)) (attached d1)"
  shows "\<exists>d3. destroy_MultiTableMonitor ops heap2 cm d2 = (d3, Inr ()) \<and>
    attached d3 = filter (\<lambda>e. snd e \<notin> set (monitors cm)) (attached d2)"
proof -
  let ?cm = "\<lparr>monitor_id = i, contractName = name, spaceId = space, monitors = []\<rparr>"
  obtain ps where ps: "cm = ?cm\<lparr>monitors := ps\<rparr>"
    "attached d1 = attached d @ zip (accepted refuses idxs) ps"
    "fresh_monitors i (attached d) (accepted refuses idxs) heap heap1 ps"
    using attach_monitors_spec [OF assms(1) listed_tables [OF assms(2)], of heap ?cm] assms(2,4)
    by (auto simp: MultiTableMonitor_def rbind_eq_Inr)
  have wired: "list_all2 (\<lambda>idx p. wired i (snd idx) (heap1 p)) (accepted refuses idxs) ps"
    using ps(3) by (simp add: fresh_monitors_def)
  have mine: "((space, typeId (heap2 p)), p) \<in> set (attached d2)" if p: "p \<in> set ps" for p
  proof -
    obtain k where k: "k < length ps" "ps ! k = p" using p by (auto simp: in_set_conv_nth)
    let ?idx = "accepted refuses idxs ! k"
    have len: "length (accepted refuses idxs) = length ps" using wired by (rule list_all2_lengthD)
    with k have "?idx \<in> set (accepted refuses idxs)" by simp
    then have "?idx \<in> set idxs" by (auto simp: accepted_def dest: set_takeWhileD)
    then have "fst ?idx = space" using assms(3) by (simp add: list_all_iff)
    moreover have "wired i (snd ?idx) (heap1 p)" using wired k len by (metis list_all2_nthD)
    then have "typeId (heap2 p) = snd ?idx" using assms(5) by (simp add: wired_def)
    moreover have "(?idx, p) \<in> set (zip (accepted refuses idxs) ps)"
      using k len by (auto simp: set_zip)
    then have "(?idx, p) \<in> set (filter (\<lambda>e. snd e \<in> set (monitors cm)) (attached d1))"
      using ps(1,2) p by simp
    then have "(?idx, p) \<in> set (attached d2)" by (simp flip: assms(7))
    ultimately show ?thesis by (metis prod.collapse)
  qed
  have "distinct ps" using ps(3) by (simp add: fresh_monitors_def)
  from delete_monitors_spec [OF assms(1,6) this, of space heap2] mine ps(1) show ?thesis
    by (simp add: destroy_MultiTableMonitor_def)
qed

text \<open>
  C27. A table that the database refuses with an exception thrown by value is not skipped, as the
  handler means to: the exception leaves the constructor, the tables before it keep monitors that
  nobody will detach, and once the half-built contract monitor is gone, the next object created in any
  of those tables reaches through a dangling signal pointer.
\<close>

theorem refused_table_leaves_dangling_monitors:
  assumes "host_ok ops attached refuses" and "indexes_of ops d space = Inr (before @ idx # rest)"
    and "list_all (\<lambda>t. refuses t = None) before"
    and "refuses idx = Some e" and "\<not> is_fc_exception_ptr e"
    and "\<not> alive env i" and "to_object env obj = Inr v"
  shows "\<exists>d' heap' ps. MultiTableMonitor ops i name space d heap = (d', heap', Inl e) \<and>
    length ps = length before \<and> attached d' = attached d @ zip before ps \<and>
    list_all (\<lambda>p. object_created env obj (heap' p) w =
      (heap' p, w, Inl (UB ''signal of a destroyed monitor''))) ps"
proof -
  have "goes_on refuses t" if "t \<in> set before" for t
    using that assms(3) by (simp add: list_all_iff goes_on_def)
  moreover have "\<not> goes_on refuses idx" using assms(4,5) by (simp add: goes_on_def)
  ultimately have all: "accepted refuses (before @ idx # rest) = before"
    "attach_outcome refuses (before @ idx # rest) = Inl e"
    using assms(3,4) by (simp_all add: accepted_def attach_outcome_def takeWhile_append2 dropWhile_append2
        filter_id_conv list_all_iff)
  obtain d' heap' ps where run:
    "MultiTableMonitor ops i name space d heap = (d', heap', Inl e)"
    "attached d' = attached d @ zip before ps"
    "fresh_monitors i (attached d) before heap heap' ps"
    using attach_monitors_spec [OF assms(1) listed_tables [OF assms(2)], of heap
        "\<lparr>monitor_id = i, contractName = name, spaceId = space, monitors = []\<rparr>"]
    unfolding all by (auto simp: MultiTableMonitor_def assms(2))
  then have wired: "list_all2 (\<lambda>t p. wired i (snd t) (heap' p)) before ps"
    by (simp add: fresh_monitors_def)
  then have "\<forall>p \<in> set ps. \<exists>t. wired i t (heap' p)"
    by (fastforce simp: list_all2_conv_all_nth in_set_conv_nth)
  then have "\<forall>p \<in> set ps. object_created_signal (heap' p) = Some (i, Sig_created)"
    by (auto simp: wired_def)
  then have "list_all (\<lambda>p. object_created env obj (heap' p) w =
      (heap' p, w, Inl (UB ''signal of a destroyed monitor''))) ps"
    using assms(6,7) by (simp add: list_all_iff object_created_def notify_object_def emit_signal_def)
  moreover have "length ps = length before" using wired by (simp add: list_all2_lengthD)
  ultimately show ?thesis using run(1,2) by blast
qed

theorem refused_table_leaves_dangling_monitors_witness:
  "\<exists>d' heap' ps. MultiTableMonitor sample_db_ops 1 ''voting'' 10
      \<lparr>all_indexes = [(10, 0), (10, 9), (10, 1)], next_address = 0, attached_monitors = []\<rparr> (\<lambda>_. (new_TableMonitor :: nat table_monitor)) =
        (d', heap', Inl (FcException ''no such index'')) \<and>
    length ps = 1 \<and> attached_monitors d' = zip [(10, 0)] ps \<and>
    list_all (\<lambda>p. object_created monitor_sample_env 4 (heap' p) [] =
      (heap' p, [], Inl (UB ''signal of a destroyed monitor''))) ps"
  using refused_table_leaves_dangling_monitors [OF sample_db_ops_ok, of
      "\<lparr>all_indexes = [(10, 0), (10, 9), (10, 1)], next_address = 0, attached_monitors = []\<rparr>"
      10 "[(10, 0)]" "(10, 9)" "[(10, 1)]" "FcException ''no such index''" monitor_sample_env 1 4 "Obj 4"
      "''voting''" "(\<lambda>_. (new_TableMonitor :: nat table_monitor))" "[]"]
  by (simp add: sample_db_ops_def sample_refuses_def monitor_sample_env_def)

end
