(* ===== verification/Plugin_Loader.thy ===== *)
theory Plugin_Loader
  imports Table_Monitor
begin

text \<open>
  The contract node's plugins, from \<open>Modules/ContractNode.cpp\<close>: finding contract libraries on disk,
  loading them, registering their contracts with the chain handler and watching their tables. The
  dynamic loader, the file system and the libraries' symbols are arguments, in the record \<open>os\<close>; the
  node's state is the record \<open>node\<close>, with the chain handler and the heap of table monitors in it.
\<close>

section \<open>The node's state and its environment\<close>

text \<open>\<open>ContractApi.hpp\<close>: the list of table names that a contract may supply.\<close>

record StringList =
  values_field :: "string list"
  count_field :: u32

datatype 'o log_line =
    LogCreated string string "'o variant_object"
  | LogDeleted string string "'o variant_object"
  | LogModified string string "'o variant_object"
  | DumpContract string
  | DumpBlank
  | DumpTable int
  | DumpObject "'o variant_object"

text \<open>The loader and the file system. A symbol that a library lacks is \<open>None\<close>; \<open>contractName\<close> may
  also be present and null.\<close>

record ('c, 'lib, 'w) os =
  open_library :: "path \<Rightarrow> 'w \<Rightarrow> 'w \<times> 'lib res"
  close_library :: "'lib \<Rightarrow> 'w \<Rightarrow> 'w"
  is_loaded :: "'lib \<Rightarrow> bool"
  location :: "'lib \<Rightarrow> path"
  registerContract_symbol :: "'lib \<Rightarrow> ('c \<Rightarrow> u8 \<Rightarrow> 'c \<times> bool res) option"
  contractName_symbol :: "'lib \<Rightarrow> string option option"
  tableNames_symbol :: "'lib \<Rightarrow> StringList option"
  weakly_canonical :: "path \<Rightarrow> 'w \<Rightarrow> path res"
  is_directory :: "path \<Rightarrow> 'w \<Rightarrow> bool res"
  directory_files :: "path \<Rightarrow> 'w \<Rightarrow> path list res"
  extension :: "path \<Rightarrow> string"
  stem :: "path \<Rightarrow> string"
  program_location :: path

text \<open>The node: \<open>next_monitor\<close> numbers the contract monitors that have been allocated, and
  \<open>connections\<close> holds, for each, what its slots captured.\<close>

record ('c, 'p, 'o, 'lib, 'w) node =
  chainHandler :: "('c, 'p) chain_handler option"
  monitor_heap :: "'o monitor_heap"
  next_monitor :: nat
  contractMonitors :: "contract_monitor list"
  connections :: "nat \<Rightarrow> (StringList option \<times> string) option"
  loadedLibraries :: "(path, 'lib) stdmap"
  log_lines :: "'o log_line list"
  node_world :: 'w

section \<open>Finding and loading libraries\<close>

definition loadPlugin ::
  "('c, 'lib, 'w) os \<Rightarrow> path \<Rightarrow> ('c, 'p, 'o, 'lib, 'w) node \<Rightarrow> ('c, 'p, 'o, 'lib, 'w) node \<times> bool res" where
  "loadPlugin os file n =
     (case open_library os file (node_world n) of
        (w, Inl e) \<Rightarrow> (n\<lparr>node_world := w\<rparr>, if is_system_error e then Inr False else Inl e)
      | (w, Inr plugin) \<Rightarrow>
          if is_loaded os plugin \<and> registerContract_symbol os plugin \<noteq> None then
            (n\<lparr>node_world := w, loadedLibraries := map_emplace file plugin (loadedLibraries n)\<rparr>, Inr True)
          else (n\<lparr>node_world := close_library os plugin w\<rparr>, Inr False))"

definition checkedExtensions :: "string list" where
  "checkedExtensions = [''.so'', ''.dylib'', ''.dll'']"

fun loadPlugins_loop ::
  "('c, 'lib, 'w) os \<Rightarrow> path list \<Rightarrow> path list \<Rightarrow> ('c, 'p, 'o, 'lib, 'w) node \<Rightarrow>
   ('c, 'p, 'o, 'lib, 'w) node \<times> path list res" where
  "loadPlugins_loop os [] loadedPlugins n = (n, Inr loadedPlugins)"
| "loadPlugins_loop os (p # ps) loadedPlugins n =
     (if extension os p \<in> set checkedExtensions \<and> map_find (loadedLibraries n) p = None then
        (case loadPlugin os p n of
           (n', Inl e) \<Rightarrow> (n', Inl e)
         | (n', Inr ok) \<Rightarrow> loadPlugins_loop os ps (if ok then loadedPlugins @ [p] else loadedPlugins) n')
      else loadPlugins_loop os ps loadedPlugins n)"

definition loadPlugins ::
  "('c, 'lib, 'w) os \<Rightarrow> path \<Rightarrow> ('c, 'p, 'o, 'lib, 'w) node \<Rightarrow>
   ('c, 'p, 'o, 'lib, 'w) node \<times> path list res" where
  "loadPlugins os directory n =
     (case weakly_canonical os directory (node_world n) of
        Inl e \<Rightarrow> (n, Inl e)
      | Inr dir \<Rightarrow>
          (case is_directory os dir (node_world n) of
             Inl e \<Rightarrow> (n, Inl e)
           | Inr False \<Rightarrow> (n, Inr [])
           | Inr True \<Rightarrow>
               (case directory_files os dir (node_world n) of
                  Inl e \<Rightarrow> (n, Inl e)
                | Inr files \<Rightarrow> loadPlugins_loop os files [] n)))"

definition searchForPlugins ::
  "('c, 'lib, 'w) os \<Rightarrow> path \<Rightarrow> ('c, 'p, 'o, 'lib, 'w) node \<Rightarrow>
   ('c, 'p, 'o, 'lib, 'w) node \<times> path list res" where
  "searchForPlugins os programPath n =
     (case loadPlugins os (path_append programPath [''plugins'']) n of
        (n1, Inl e) \<Rightarrow> (n1, Inl e)
      | (n1, Inr loaded) \<Rightarrow>
          (case loadPlugins os (path_append programPath
                   [''..'', ''lib'', stem os (program_location os), ''plugins'']) n1 of
             (n2, Inl e) \<Rightarrow> (n2, Inl e)
           | (n2, Inr more_plugins) \<Rightarrow> (n2, Inr (loaded @ more_plugins))))"

section \<open>Registering and watching contracts\<close>

text \<open>\<open>std::to_string\<close> of a small unsigned number.\<close>

fun decimal :: "nat \<Rightarrow> string" where
  "decimal n = (if n < 10 then [char_of (48 + n)] else decimal (n div 10) @ [char_of (48 + n mod 10)])"

declare decimal.simps [simp del]

text \<open>The name under which a slot reports a table. \<open>values\<close> is read without a check of its own.\<close>

definition table_name :: "StringList option \<Rightarrow> u8 \<Rightarrow> string res" where
  "table_name tables type =
     (case tables of
        Some t \<Rightarrow>
          if count_field t > ucast type then
            (if unat type < length (values_field t) then Inr (values_field t ! unat type)
             else Inl (UB ''read past the end of values''))
          else Inr (decimal (unat type))
      | None \<Rightarrow> Inr (decimal (unat type)))"

text \<open>The three slots that \<open>initializePlugin\<close> connects; \<open>object_loaded\<close> has none.\<close>

definition node_slots ::
  "(nat \<Rightarrow> (StringList option \<times> string) option) \<Rightarrow> nat \<Rightarrow> signal \<Rightarrow> u8 \<Rightarrow> 'o variant_object \<Rightarrow>
   'o log_line list \<Rightarrow> 'o log_line list \<times> unit res" where
  "node_slots conns i s type v out =
     (case conns i of
        None \<Rightarrow> (out, Inr ())
      | Some (tables, name) \<Rightarrow>
          (case s of
             Sig_loaded \<Rightarrow> (out, Inr ())
           | Sig_created \<Rightarrow> (case table_name tables type of
                 Inl e \<Rightarrow> (out, Inl e) | Inr t \<Rightarrow> (out @ [LogCreated name t v], Inr ()))
           | Sig_deleted \<Rightarrow> (case table_name tables type of
                 Inl e \<Rightarrow> (out, Inl e) | Inr t \<Rightarrow> (out @ [LogDeleted name t v], Inr ()))
           | Sig_modified \<Rightarrow> (case table_name tables type of
                 Inl e \<Rightarrow> (out, Inl e) | Inr t \<Rightarrow> (out @ [LogModified name t v], Inr ()))))"

definition no_symbol :: cpp_error where
  "no_symbol = SystemError ''registerContract''"

text \<open>The body of the \<open>try\<close> block of \<open>initializePlugin\<close>, with the name as the block leaves it.\<close>

definition initializePlugin_try ::
  "'p record_ops \<Rightarrow> 'c db_ops \<Rightarrow> ('c, 'lib, 'w) os \<Rightarrow> 'lib \<Rightarrow> ('c, 'p, 'o, 'lib, 'w) node \<Rightarrow>
   ('c, 'p, 'o, 'lib, 'w) node \<times> bool res" where
  "initializePlugin_try P ops os lib n =
     (case contractName_symbol os lib of
        Some None \<Rightarrow> (n, Inl (UB ''string from a null pointer''))
      | symbol \<Rightarrow>
          (let name = (case symbol of Some (Some s) \<Rightarrow> s | _ \<Rightarrow> filename (location os lib));
               tables = tableNames_symbol os lib
           in case registerContract_symbol os lib of
                None \<Rightarrow> (n, Inl no_symbol)
              | Some initialize \<Rightarrow>
                  (case chainHandler n of
                     None \<Rightarrow> (n, Inl (UB ''null chainHandler''))
                   | Some h \<Rightarrow>
                       (case initializeContract P name initialize h of
                          (h1, Inl e) \<Rightarrow> (n\<lparr>chainHandler := Some h1\<rparr>, Inl e)
                        | (h1, Inr False) \<Rightarrow> (n\<lparr>chainHandler := Some h1\<rparr>, Inr False)
                        | (h1, Inr True) \<Rightarrow>
                            (let i = next_monitor n;
                                 ((h2, heap), r) = observeContract_name ops i name (h1, monitor_heap n);
                                 n' = n\<lparr>chainHandler := Some h2, monitor_heap := heap, next_monitor := Suc i\<rparr>
                             in case r of
                                  Inl e \<Rightarrow> (n', Inl e)
                                | Inr monitor \<Rightarrow>
                                    (n'\<lparr>connections := (connections n)(i \<mapsto> (tables, name)),
                                        contractMonitors := contractMonitors n @ [monitor]\<rparr>, Inr True))))))"

definition initializePlugin ::
  "'p record_ops \<Rightarrow> 'c db_ops \<Rightarrow> ('c, 'lib, 'w) os \<Rightarrow> 'lib \<Rightarrow> ('c, 'p, 'o, 'lib, 'w) node \<Rightarrow>
   ('c, 'p, 'o, 'lib, 'w) node \<times> bool res" where
  "initializePlugin P ops os lib n =
     (case initializePlugin_try P ops os lib n of
        (n', Inl e) \<Rightarrow> (n', if is_boost_exception e then Inr False else Inl e)
      | (n', Inr ok) \<Rightarrow> (n', Inr ok))"

definition end_dereferenced :: cpp_error where
  "end_dereferenced = UB ''dereference of loadedLibraries.end()''"

text \<open>\<open>initializePlugins\<close>: a library whose contract fails to initialize is erased, which unloads it.\<close>

fun initializePlugins ::
  "'p record_ops \<Rightarrow> 'c db_ops \<Rightarrow> ('c, 'lib, 'w) os \<Rightarrow> path list \<Rightarrow> ('c, 'p, 'o, 'lib, 'w) node \<Rightarrow>
   ('c, 'p, 'o, 'lib, 'w) node \<times> unit res" where
  "initializePlugins P ops os [] n = (n, Inr ())"
| "initializePlugins P ops os (p # ps) n =
     (case map_find (loadedLibraries n) p of
        None \<Rightarrow> (n, Inl end_dereferenced)
      | Some lib \<Rightarrow>
          (case initializePlugin P ops os lib n of
             (n1, Inl e) \<Rightarrow> (n1, Inl e)
           | (n1, Inr True) \<Rightarrow> initializePlugins P ops os ps n1
           | (n1, Inr False) \<Rightarrow>
               initializePlugins P ops os ps
                 (n1\<lparr>node_world := close_library os lib (node_world n1),
                     loadedLibraries := map_erase p (loadedLibraries n1)\<rparr>)))"

section \<open>What a search leaves behind\<close>

text \<open>From \<open>n\<close> to \<open>n'\<close>, exactly the libraries at the paths \<open>new\<close> have been loaded: none was loaded
  before, each is now, with a contract in it, and nothing else of the node has changed.\<close>

definition loads ::
  "('c, 'lib, 'w) os \<Rightarrow> ('c, 'p, 'o, 'lib, 'w) node \<Rightarrow> path list \<Rightarrow> ('c, 'p, 'o, 'lib, 'w) node \<Rightarrow> bool" where
  "loads os n new n' \<longleftrightarrow> map_ok (loadedLibraries n') \<and> distinct new \<and>
     (\<forall>p \<in> set new. extension os p \<in> set checkedExtensions \<and> map_find (loadedLibraries n) p = None \<and>
        (\<exists>lib. map_find (loadedLibraries n') p = Some lib \<and> is_loaded os lib \<and>
               registerContract_symbol os lib \<noteq> None)) \<and>
     (\<forall>p. p \<notin> set new \<longrightarrow> map_find (loadedLibraries n') p = map_find (loadedLibraries n) p) \<and>
     n' = n\<lparr>loadedLibraries := loadedLibraries n', node_world := node_world n'\<rparr>"

lemma loads_refl: "map_ok (loadedLibraries n) \<Longrightarrow> loads os n [] n"
  by (simp add: loads_def)

lemma loads_trans:
  assumes "loads os n xs n1" "loads os n1 ys n2"
  shows "loads os n (xs @ ys) n2"
proof -
  have disjoint: "set xs \<inter> set ys = {}" using assms by (force simp: loads_def)
  have same: "map_find (loadedLibraries n2) p = map_find (loadedLibraries n1) p" if "p \<in> set xs" for p
    using assms(2) disjoint that by (auto simp: loads_def)
  have other: "map_find (loadedLibraries n1) p = map_find (loadedLibraries n) p" if "p \<in> set ys" for p
    using assms(1) disjoint that by (auto simp: loads_def)
  have "n2 = n\<lparr>loadedLibraries := loadedLibraries n2, node_world := node_world n2\<rparr>"
    using assms by (cases n, cases n1, cases n2) (simp add: loads_def)
  then show ?thesis
    using assms disjoint same other by (simp add: loads_def ball_Un)
qed

lemma loadPlugin_loads:
  assumes "map_ok (loadedLibraries n)" "loadPlugin os p n = (n', r)"
    and "extension os p \<in> set checkedExtensions" "map_find (loadedLibraries n) p = None"
  shows "loads os n (if r = Inr True then [p] else []) n'"
proof (cases "open_library os p (node_world n)")
  case (Pair w res)
  show ?thesis
  proof (cases res)
    case (Inl e)
    with Pair assms(1,2) show ?thesis by (auto simp: loadPlugin_def loads_def split: if_splits)
  next
    case (Inr plugin)
    with Pair assms show ?thesis
      using stdmap.emplace_adds [OF assms(1,4), of plugin]
      by (auto simp: loadPlugin_def loads_def stdmap.emplace_other split: if_splits)
  qed
qed

lemma loadPlugins_loop_loads:
  assumes "map_ok (loadedLibraries n)" "loadPlugins_loop os ps out n = (n', r)"
  shows "\<exists>new. loads os n new n' \<and> (\<forall>paths. r = Inr paths \<longrightarrow> paths = out @ new)"
  using assms
proof (induction os ps out n rule: loadPlugins_loop.induct)
  case (1 os out n)
  then show ?case by (auto intro: loads_refl)
next
  case (2 os p ps out n)
  show ?case
  proof (cases "extension os p \<in> set checkedExtensions \<and> map_find (loadedLibraries n) p = None")
    case True
    obtain n1 r1 where run: "loadPlugin os p n = (n1, r1)" by fastforce
    have l1: "loads os n (if r1 = Inr True then [p] else []) n1"
      by (rule loadPlugin_loads [OF "2.prems"(1) run]) (use True in auto)
    show ?thesis
    proof (cases r1)
      case (Inl e)
      with l1 run True "2.prems"(2) show ?thesis by auto
    next
      case (Inr ok)
      have "map_ok (loadedLibraries n1)" using l1 by (simp add: loads_def)
      moreover have "loadPlugins_loop os ps (if ok then out @ [p] else out) n1 = (n', r)"
        using "2.prems"(2) True run Inr by simp
      ultimately obtain new where new: "loads os n1 new n'"
        "\<forall>paths. r = Inr paths \<longrightarrow> paths = (if ok then out @ [p] else out) @ new"
        using "2.IH"(1) [OF True run [symmetric] Inr] by blast
      from loads_trans [OF l1 new(1)] new(2) Inr show ?thesis by (cases ok) auto
    qed
  next
    case False
    then show ?thesis using "2.IH"(2) "2.prems" by (auto split: if_splits)
  qed
qed

lemma loadPlugins_loads:
  assumes "map_ok (loadedLibraries n)" "loadPlugins os dir n = (n', r)"
  shows "\<exists>new. loads os n new n' \<and> (\<forall>paths. r = Inr paths \<longrightarrow> paths = new)"
  using assms loadPlugins_loop_loads [OF assms(1), of os _ "[]"] loads_refl [OF assms(1), of os]
  by (auto simp: loadPlugins_def split: sum.splits bool.splits)

lemma search_loads:
  assumes "map_ok (loadedLibraries n)" and "searchForPlugins os dir n = (n', r)"
  shows "\<exists>new. loads os n new n' \<and> (\<forall>paths. r = Inr paths \<longrightarrow> paths = new)"
proof -
  obtain n1 r1 where run1: "loadPlugins os (path_append dir [''plugins'']) n = (n1, r1)" by fastforce
  obtain new1 where new1: "loads os n new1 n1" "\<forall>paths. r1 = Inr paths \<longrightarrow> paths = new1"
    using loadPlugins_loads [OF assms(1) run1] by blast
  show ?thesis
  proof (cases r1)
    case (Inl e)
    with run1 new1 assms(2) show ?thesis by (auto simp: searchForPlugins_def)
  next
    case (Inr paths1)
    let ?dir = "path_append dir [''..'', ''lib'', stem os (program_location os), ''plugins'']"
    obtain n2 r2 where run2: "loadPlugins os ?dir n1 = (n2, r2)" by fastforce
    have "map_ok (loadedLibraries n1)" using new1(1) by (simp add: loads_def)
    from loadPlugins_loads [OF this run2] obtain new2 where
      new2: "loads os n1 new2 n2" "\<forall>paths. r2 = Inr paths \<longrightarrow> paths = new2" by blast
    with loads_trans [OF new1(1) new2(1)] new1(2) Inr run1 run2 assms(2) show ?thesis
      by (auto simp: searchForPlugins_def split: sum.splits)
  qed
qed

text \<open>
  C19. A search reports exactly what it loads: the paths it returns are distinct, have a library's
  extension and were not loaded before, each is now loaded with a contract in it, and nothing else of
  the node has changed. A search that throws has loaded libraries that it does not report.
\<close>

theorem searchForPlugins_loads:
  assumes "map_ok (loadedLibraries n)" and "searchForPlugins os dir n = (n', r)"
  shows "\<exists>new. loads os n new n' \<and> (\<forall>paths. r = Inr paths \<longrightarrow> paths = new)"
  using assms by (rule search_loads)

text \<open>A concrete environment, with a world that counts the open libraries; the chain database is the
  sample database of monitored tables.\<close>

definition plugin_path :: "string \<Rightarrow> path" where
  "plugin_path name = Path [''bin'', ''plugins'', name]"

definition sample_os :: "(sample_tables, path, nat) os" where
  "sample_os = \<lparr>
     open_library = (\<lambda>p w. if filename p = ''bad.so'' then (w, Inl (SystemError ''bad image''))
                           else (w + 1, Inr p)),
     close_library = (\<lambda>lib w. w - 1), is_loaded = (\<lambda>lib. True), location = (\<lambda>lib. lib),
     registerContract_symbol = (\<lambda>lib.
        if filename lib = ''voting.so'' then Some (\<lambda>c k. (c, Inr True))
        else if filename lib = ''broken.so'' then Some (\<lambda>c k. (c, Inl (FcException ''broken'')))
        else None),
     contractName_symbol = (\<lambda>lib. if filename lib = ''voting.so'' then Some (Some ''voting'') else None),
     tableNames_symbol = (\<lambda>lib. Some \<lparr>values_field = [''ballots'', ''votes''], count_field = 2\<rparr>),
     weakly_canonical = (\<lambda>p w. Inr p), is_directory = (\<lambda>p w. Inr (p = Path [''bin'', ''plugins''])),
     directory_files = (\<lambda>p w. Inr [plugin_path ''bad.so'', plugin_path ''readme.txt'', plugin_path ''voting.so'']),
     extension = (\<lambda>p. if filename p = ''readme.txt'' then ''.txt'' else ''.so''),
     stem = (\<lambda>p. ''node''), program_location = Path [''bin'', ''node'']\<rparr>"

definition sample_chain :: "(sample_tables, contract_index) chain_handler" where
  "sample_chain = \<lparr>basePath = Path [''home''],
     chain = \<lparr>all_indexes = [(10, 0), (10, 1)], next_address = 0, attached_monitors = []\<rparr>,
     persistence = sample_index, isOpen = False, loadedContracts = []\<rparr>"

definition sample_node :: "(sample_tables, contract_index, nat, path, nat) node" where
  "sample_node = \<lparr>chainHandler = Some sample_chain, monitor_heap = (\<lambda>_. new_TableMonitor),
     next_monitor = 0, contractMonitors = [], connections = (\<lambda>_. None), loadedLibraries = [],
     log_lines = [], node_world = 0\<rparr>"

definition sample_node_loaded :: "(sample_tables, contract_index, nat, path, nat) node" where
  "sample_node_loaded = sample_node\<lparr>node_world := 1,
     loadedLibraries := [(plugin_path ''voting.so'', plugin_path ''voting.so'')]\<rparr>"

lemmas sample_node_defs = sample_node_def sample_os_def plugin_path_def filename_def path_append_def

lemma sample_search:
  "searchForPlugins sample_os (Path [''bin'']) sample_node =
     (sample_node_loaded, Inr [plugin_path ''voting.so''])"
  by (simp add: searchForPlugins_def loadPlugins_def loadPlugin_def sample_node_defs
      sample_node_loaded_def checkedExtensions_def map_find_def)

theorem searchForPlugins_loads_witness:
  "loads sample_os sample_node [plugin_path ''voting.so''] sample_node_loaded"
  using searchForPlugins_loads [OF _ sample_search] by (simp add: sample_node_def)

text \<open>A library that can be used: it opens, is loaded and has a contract in it.\<close>

definition usable :: "('c, 'lib, 'w) os \<Rightarrow> 'lib res \<Rightarrow> bool" where
  "usable os r = (case r of Inl e \<Rightarrow> False
     | Inr lib \<Rightarrow> is_loaded os lib \<and> registerContract_symbol os lib \<noteq> None)"

definition wanted :: "('c, 'lib, 'w) os \<Rightarrow> (path, 'lib) stdmap \<Rightarrow> path \<Rightarrow> bool" where
  "wanted os libs f \<longleftrightarrow> extension os f \<in> set checkedExtensions \<and> map_find libs f = None"

lemma loadPlugin_usable:
  assumes "\<forall>f w. snd (open_library os f w) = opens f" "\<forall>e. opens p = Inl e \<longrightarrow> is_system_error e"
  shows "snd (loadPlugin os p n) = Inr (usable os (opens p))"
proof -
  obtain w r where "open_library os p (node_world n) = (w, r)" by fastforce
  moreover from this assms(1) have "r = opens p" by (metis snd_conv)
  ultimately show ?thesis
    using assms(2) by (auto simp: loadPlugin_def usable_def split: sum.split)
qed

lemma loadPlugins_loop_complete:
  assumes "\<forall>f w. snd (open_library os f w) = opens f"
  shows "distinct files \<Longrightarrow> map_ok (loadedLibraries n) \<Longrightarrow>
    \<forall>f \<in> set files. \<forall>e. opens f = Inl e \<longrightarrow> is_system_error e \<Longrightarrow>
    snd (loadPlugins_loop os files out n) =
      Inr (out @ filter (\<lambda>f. wanted os (loadedLibraries n) f \<and> usable os (opens f)) files)"
proof (induction files arbitrary: out n)
  case (Cons p files)
  show ?case
  proof (cases "wanted os (loadedLibraries n) p")
    case False
    then have "loadPlugins_loop os (p # files) out n = loadPlugins_loop os files out n"
      unfolding wanted_def by (simp only: loadPlugins_loop.simps if_False)
    with False Cons show ?thesis by simp
  next
    case True
    obtain n' r where run: "loadPlugin os p n = (n', r)" by fastforce
    have r: "r = Inr (usable os (opens p))"
      using loadPlugin_usable [OF assms, of p n] Cons.prems(3) run by simp
    have "loads os n (if r = Inr True then [p] else []) n'"
      by (rule loadPlugin_loads [OF Cons.prems(2) run]) (use True in \<open>auto simp: wanted_def\<close>)
    then have "map_ok (loadedLibraries n')"
      and other: "\<And>f. f \<noteq> p \<Longrightarrow> map_find (loadedLibraries n') f = map_find (loadedLibraries n) f"
      by (auto simp: loads_def split: if_splits)
    then have "snd (loadPlugins_loop os files out n') =
        Inr (out @ filter (\<lambda>f. wanted os (loadedLibraries n') f \<and> usable os (opens f)) files)" for out
      using Cons.IH Cons.prems(1,3) by simp
    moreover have "filter (\<lambda>f. wanted os (loadedLibraries n') f \<and> usable os (opens f)) files =
        filter (\<lambda>f. wanted os (loadedLibraries n) f \<and> usable os (opens f)) files"
    proof (rule filter_cong [OF refl])
      fix f assume "f \<in> set files"
      then have "f \<noteq> p" using Cons.prems(1) by auto
      then show "(wanted os (loadedLibraries n') f \<and> usable os (opens f)) =
          (wanted os (loadedLibraries n) f \<and> usable os (opens f))"
        by (simp add: wanted_def other)
    qed
    ultimately show ?thesis using run r True by (simp add: wanted_def)
  qed
qed simp

text \<open>
  A search is complete: when opening a file has a fixed result and fails only with a system error,
  the plugins found in a directory are exactly its files with a library's extension that are not loaded
  yet, open, and have a contract in them, in directory order.
\<close>

lemma loadPlugins_complete:
  assumes "\<forall>f w. snd (open_library os f w) = opens f"
    and "weakly_canonical os dir (node_world n) = Inr d" and "is_directory os d (node_world n) = Inr True"
    and "directory_files os d (node_world n) = Inr files" and "distinct files"
    and "map_ok (loadedLibraries n)"
    and "\<forall>f \<in> set files. \<forall>e. opens f = Inl e \<longrightarrow> is_system_error e"
  shows "snd (loadPlugins os dir n) =
    Inr (filter (\<lambda>f. wanted os (loadedLibraries n) f \<and> usable os (opens f)) files)"
  using loadPlugins_loop_complete [OF assms(1,5,6,7), of "[]"] assms(2,3,4) by (simp add: loadPlugins_def)

section \<open>Initializing what was found\<close>

lemma initializePlugin_keeps_libraries:
  "loadedLibraries (fst (initializePlugin P ops os lib n)) = loadedLibraries n"
  by (auto simp: initializePlugin_def initializePlugin_try_def Let_def
      split: prod.split sum.split option.split bool.split)

lemma initializePlugins_finds:
  fixes n :: "('c, 'p, 'o, 'lib, 'w) node"
  assumes "\<forall>lib (m :: ('c, 'p, 'o, 'lib, 'w) node). snd (initializePlugin P ops os lib m) \<noteq> Inl end_dereferenced"
  shows "map_ok (loadedLibraries n) \<Longrightarrow> distinct paths \<Longrightarrow>
    \<forall>p \<in> set paths. map_find (loadedLibraries n) p \<noteq> None \<Longrightarrow>
    snd (initializePlugins P ops os paths n) \<noteq> Inl end_dereferenced"
proof (induction paths arbitrary: n)
  case (Cons p ps)
  then obtain lib where lib: "map_find (loadedLibraries n) p = Some lib" by auto
  obtain n1 r where run: "initializePlugin P ops os lib n = (n1, r)" by fastforce
  have same: "loadedLibraries n1 = loadedLibraries n"
    using initializePlugin_keeps_libraries [of P ops os lib n] run by simp
  have r: "r \<noteq> Inl end_dereferenced" using assms [rule_format, of lib n] run by simp
  show ?case
  proof (cases r)
    case (Inl e)
    with run lib r show ?thesis by simp
  next
    case (Inr ok)
    let ?n2 = "n1\<lparr>node_world := close_library os lib (node_world n1),
      loadedLibraries := map_erase p (loadedLibraries n1)\<rparr>"
    have "map_find (map_erase p (loadedLibraries n)) q \<noteq> None" if "q \<in> set ps" for q
    proof -
      have "q \<noteq> p" using that Cons.prems(2) by auto
      then show ?thesis using that Cons.prems(1,3) by (simp add: stdmap.erase_other)
    qed
    then have "snd (initializePlugins P ops os ps ?n2) \<noteq> Inl end_dereferenced"
      using Cons.prems same by (intro Cons.IH) auto
    moreover have "snd (initializePlugins P ops os ps n1) \<noteq> Inl end_dereferenced"
      using Cons.prems same by (intro Cons.IH) auto
    ultimately show ?thesis using run lib Inr by (cases ok) auto
  qed
qed (simp add: end_dereferenced_def)

text \<open>
  The unchecked lookup in \<open>initializePlugins\<close> is safe where the node uses it: on the paths that a
  search has just returned it never dereferences the end of \<open>loadedLibraries\<close>, although it erases
  libraries while it goes.
\<close>

lemma initializePlugins_after_search:
  fixes n :: "('c, 'p, 'o, 'lib, 'w) node"
  assumes "\<forall>lib (m :: ('c, 'p, 'o, 'lib, 'w) node). snd (initializePlugin P ops os lib m) \<noteq> Inl end_dereferenced"
    and "map_ok (loadedLibraries n)" and "searchForPlugins os dir n = (n', Inr paths)"
  shows "snd (initializePlugins P ops os paths n') \<noteq> Inl end_dereferenced"
proof -
  have "loads os n paths n'" using search_loads [OF assms(2,3)] by simp
  then have "map_ok (loadedLibraries n')" "distinct paths"
    "\<forall>p \<in> set paths. map_find (loadedLibraries n') p \<noteq> None"
    by (auto simp: loads_def)
  then show ?thesis by (rule initializePlugins_finds [OF assms(1)])
qed

text \<open>
  A contract that throws anything but a Boost exception while it registers, as every FC exception
  is, ends the initialization of all plugins after it, and its library stays loaded: no later search
  reports it again, so it is never initialized.
\<close>

lemma throwing_plugin_stays_loaded:
  assumes "map_ok (loadedLibraries n)" and "map_find (loadedLibraries n) p = Some lib"
    and "chainHandler n = Some h" and "registerContract_symbol os lib = Some f"
    and "contractName_symbol os lib = Some (Some name)"
    and "initializeContract P name f h = (h1, Inl e)" and "\<not> is_boost_exception e"
  shows "initializePlugins P ops os (p # ps) n = (n\<lparr>chainHandler := Some h1\<rparr>, Inl e) \<and>
    (\<forall>n' paths. searchForPlugins os dir (n\<lparr>chainHandler := Some h1\<rparr>) = (n', Inr paths) \<longrightarrow> p \<notin> set paths)"
proof -
  have "initializePlugin P ops os lib n = (n\<lparr>chainHandler := Some h1\<rparr>, Inl e)"
    using assms by (simp add: initializePlugin_def initializePlugin_try_def)
  moreover have "p \<notin> set paths"
    if "searchForPlugins os dir (n\<lparr>chainHandler := Some h1\<rparr>) = (n', Inr paths)" for n' paths
    using search_loads [OF _ that] assms(1,2) by (auto simp: loads_def)
  ultimately show ?thesis using assms(2) by simp
qed

text \<open>The monitors of the node as an environment for its table monitors: the contract monitors it
  keeps are alive, and their slots write its log.\<close>

definition node_monitor_env ::
  "('obj \<Rightarrow> 'o variant_object res) \<Rightarrow> 'o variant_object \<Rightarrow> ('c, 'p, 'o, 'lib, 'w) node \<Rightarrow>
   ('obj, 'o, 'o log_line list) monitor_env" where
  "node_monitor_env read moved n = \<lparr>to_object = read, moved_from = moved,
     alive = (\<lambda>i. i \<in> set (map monitor_id (contractMonitors n))), slots = node_slots (connections n)\<rparr>"

definition table_label :: "StringList option \<Rightarrow> u8 \<Rightarrow> string" where
  "table_label tables type =
     (case tables of
        Some t \<Rightarrow> if unat type < length (values_field t) then values_field t ! unat type else decimal (unat type)
      | None \<Rightarrow> decimal (unat type))"

lemma table_name_label:
  assumes "\<forall>t. tables = Some t \<longrightarrow> unat (count_field t) = length (values_field t)"
  shows "table_name tables type = Inr (table_label tables type)"
proof (cases tables)
  case (Some t)
  then have "count_field t > ucast type \<longleftrightarrow> unat type < length (values_field t)"
  proof -
    have "unat type < 2 ^ LENGTH(8)" by (rule unsigned_less)
    then have "take_bit 32 (unat type) = unat type" by (simp add: take_bit_nat_eq_self)
    then show ?thesis using assms Some by (simp add: word_less_nat_alt unsigned_ucast_eq)
  qed
  with Some show ?thesis by (simp add: table_name_def table_label_def)
qed (simp add: table_name_def table_label_def)

text \<open>
  C15. A registered contract is watched: when the initializer accepts, fewer than 247 contracts are
  recorded and no table of the contract's space is refused by value, the plugin is initialized, one
  contract monitor is added for the space of the contract's record, and an object created in any
  accepted table of that space is logged once under the contract's name and that table's name, from
  the contract's own list if it has one.
\<close>

theorem initialized_contract_is_watched:
  fixes n :: "('c, contract_index, 'o, 'lib, 'w) node"
  assumes "chainHandler n = Some h" and "handler_ok index_records index_ok h"
    and "registerContract_symbol os lib = Some f" and "contractName_symbol os lib = Some (Some name)"
    and "initializeContract contract_index_ops name f h = (h1, Inr True)"
    and "length (index_records (persistence h1)) \<le> 246"
    and "host_ok ops attached refuses" and "\<forall>k. indexes_of ops (chain h1) k = Inr (idxs k)"
    and "\<forall>k. list_all (goes_on refuses) (idxs k)"
    and "\<forall>t. tableNames_symbol os lib = Some t \<longrightarrow> unat (count_field t) = length (values_field t)"
    and "read obj = Inr v"
  shows "\<exists>n' r ps. initializePlugin contract_index_ops ops os lib n = (n', Inr True) \<and>
    r \<in> set (index_records (persistence h1)) \<and> cr_name r = name \<and>
    contractMonitors n' = contractMonitors n @
      [\<lparr>monitor_id = next_monitor n, contractName = name, spaceId = contractObjectSpaceId r, monitors = ps\<rparr>] \<and>
    list_all2 (\<lambda>idx p. object_created (node_monitor_env read moved n') obj (monitor_heap n' p) out =
        (monitor_heap n' p, out @ [LogCreated name (table_label (tableNames_symbol os lib) (snd idx)) v], Inr ()))
      (filter (\<lambda>idx. refuses idx = None) (idxs (contractObjectSpaceId r))) ps"
proof -
  obtain r where r: "r \<in> set (index_records (persistence h1))" "cr_name r = name"
    "getSpaceId h1 name = Inr (contractObjectSpaceId r)"
    using initialized_space [OF assms(2,5,6)] by blast
  let ?k = "contractObjectSpaceId r" and ?i = "next_monitor n"
  let ?idxs = "filter (\<lambda>idx. refuses idx = None) (idxs ?k)"
  obtain d heap ps where m:
    "MultiTableMonitor ops ?i name ?k (chain h1) (monitor_heap n) =
      (d, heap, Inr \<lparr>monitor_id = ?i, contractName = name, spaceId = ?k, monitors = ps\<rparr>)"
    "fresh_monitors ?i (attached (chain h1)) ?idxs (monitor_heap n) heap ps"
    using MultiTableMonitor_complete [OF assms(7) assms(8) [rule_format, of ?k] assms(9) [rule_format, of ?k]]
    by blast
  let ?tables = "tableNames_symbol os lib"
  let ?cm = "\<lparr>monitor_id = ?i, contractName = name, spaceId = ?k, monitors = ps\<rparr>"
  let ?n' = "n\<lparr>chainHandler := Some (h1\<lparr>chain := d\<rparr>), monitor_heap := heap, next_monitor := Suc ?i,
    connections := (connections n)(?i \<mapsto> (?tables, name)), contractMonitors := contractMonitors n @ [?cm]\<rparr>"
  have run: "initializePlugin contract_index_ops ops os lib n = (?n', Inr True)"
    using assms(1,3,4,5) m(1) r(3)
    by (simp add: initializePlugin_def initializePlugin_try_def observeContract_name_def observeContract_def Let_def)
  have "wired ?i t (heap p) \<Longrightarrow>
      object_created (node_monitor_env read moved ?n') obj (monitor_heap ?n' p) out =
        (monitor_heap ?n' p, out @ [LogCreated name (table_label ?tables t) v], Inr ())" for t p
    using table_name_label [OF assms(10), of t] assms(11)
    by (simp add: wired_def object_created_def notify_object_def emit_signal_def node_monitor_env_def
        node_slots_def)
  moreover have "list_all2 (\<lambda>idx p. wired ?i (snd idx) (heap p)) ?idxs ps"
    using m(2) by (simp add: fresh_monitors_def)
  ultimately have "list_all2 (\<lambda>idx p.
      object_created (node_monitor_env read moved ?n') obj (monitor_heap ?n' p) out =
        (monitor_heap ?n' p, out @ [LogCreated name (table_label ?tables (snd idx)) v], Inr ())) ?idxs ps"
    by (auto elim: list_all2_mono)
  moreover have "contractMonitors ?n' = contractMonitors n @ [?cm]" by simp
  ultimately show ?thesis using run r(1,2) by blast
qed

lemma sample_chain_voting:
  "initializeContract contract_index_ops ''voting'' (\<lambda>c k. (c, Inr True)) sample_chain =
     (sample_chain\<lparr>loadedContracts := [(10, ''voting'')]\<rparr>, Inr True)"
  by (simp add: initializeContract_def contract_record_for_def contract_index_ops_def
      index_lower_bound_def sample_chain_def sample_index_def contractObjectSpaceId_def
      FIRST_AVAILABLE_SPACE_ID_def)

theorem initialized_contract_is_watched_witness:
  "\<exists>n' r ps. initializePlugin contract_index_ops sample_db_ops sample_os (plugin_path ''voting.so'') sample_node =
      (n', Inr True) \<and>
    r \<in> set (index_records sample_index) \<and> cr_name r = ''voting'' \<and>
    contractMonitors n' =
      [\<lparr>monitor_id = 0, contractName = ''voting'', spaceId = contractObjectSpaceId r, monitors = ps\<rparr>] \<and>
    list_all2 (\<lambda>idx p. object_created (node_monitor_env (\<lambda>x. Inr (Obj x)) (MutObj []) n') 5 (monitor_heap n' p) [] =
        (monitor_heap n' p, [LogCreated ''voting'' (table_label (Some \<lparr>values_field = [''ballots'', ''votes''], count_field = 2\<rparr>) (snd idx)) (Obj 5)], Inr ()))
      (filter (\<lambda>idx. fst idx = contractObjectSpaceId r) [(10, 0), (10, 1)]) ps"
proof -
  have ok: "handler_ok index_records index_ok sample_chain"
    using sample_index_ok by (simp add: handler_ok_def sample_chain_def)
  show ?thesis
    using initialized_contract_is_watched [OF _ ok _ _ sample_chain_voting _ sample_db_ops_ok,
        of sample_node sample_os "plugin_path ''voting.so''"
          "\<lambda>k. filter (\<lambda>idx. fst idx = k) [(10, 0), (10, 1)]" "\<lambda>x. Inr (Obj x)" 5 "Obj 5" "MutObj []" "[]"]
    by (simp add: sample_node_defs sample_chain_def sample_index_def sample_db_ops_def goes_on_def
        sample_refuses_def list_all_iff cong: list.rel_cong)
qed

end
