(* ===== verification/Example_Contract.thy ===== *)
theory Example_Contract
  imports Plugin_Loader
begin

text \<open>
  The example contract of \<open>ExampleContract/ExampleContract.hpp\<close>: an evaluator for custom operations that
  logs what it is given, and the function that registers it. Graphene's \<open>register_evaluator\<close> is an
  argument. The library exports neither a contract name nor table names.
\<close>

text \<open>The two steps of the evaluator; \<open>log\<close> holds the operations that were logged.\<close>

definition do_evaluate :: "'op \<Rightarrow> 'op list \<Rightarrow> 'op list \<times> unit res" where
  "do_evaluate op log = (log @ [op], Inr ())"

definition do_apply :: "'op \<Rightarrow> 'op list \<Rightarrow> 'op list \<times> unit res" where
  "do_apply op log = (log, Inr ())"

definition registerContract :: "('c \<Rightarrow> 'c \<times> unit res) \<Rightarrow> 'c \<Rightarrow> u8 \<Rightarrow> 'c \<times> bool res" where
  "registerContract register_evaluator db space =
     (case register_evaluator db of (db', r) \<Rightarrow> (db', rbind r (\<lambda>_. Inr True)))"

definition is_example_library :: "('c, 'lib, 'w) os \<Rightarrow> ('c \<Rightarrow> 'c \<times> unit res) \<Rightarrow> 'lib \<Rightarrow> bool" where
  "is_example_library os register_evaluator lib \<longleftrightarrow>
     registerContract_symbol os lib = Some (registerContract register_evaluator) \<and>
     contractName_symbol os lib = None \<and> tableNames_symbol os lib = None"

text \<open>When the evaluator can be registered and the space that the contract is given has no tables, the
  node initializes the library under its file's name, with a record and a monitor for no table.\<close>

lemma example_contract_initialized:
  fixes n :: "('c, contract_index, 'o, 'lib, 'w) node"
  assumes "chainHandler n = Some h" and "handler_ok index_records index_ok h"
    and "is_example_library os register_evaluator lib"
    and "register_evaluator (chain h) = (c, Inr ())" and "length (index_records (persistence h)) \<le> 245"
    and "host_ok ops attached refuses" and "\<forall>k. indexes_of ops c k = Inr []"
  shows "\<exists>n' h' r. initializePlugin contract_index_ops ops os lib n = (n', Inr True) \<and>
    chainHandler n' = Some h' \<and> attached (chain h') = attached c \<and>
    r \<in> set (index_records (persistence h')) \<and> cr_name r = filename (location os lib) \<and>
    map_find (getLoadedContracts h') (contractObjectSpaceId r) = Some (cr_name r) \<and>
    contractMonitors n' = contractMonitors n @ [\<lparr>monitor_id = next_monitor n, contractName = cr_name r,
      spaceId = contractObjectSpaceId r, monitors = []\<rparr>]"
proof -
  let ?name = "filename (location os lib)"
  let ?f = "registerContract register_evaluator"
  have "index_ok (persistence h)" using assms(2) by (simp add: handler_ok_def)
  then obtain p r0 new where p: "contract_record_for contract_index_ops (persistence h) ?name = Inr (p, r0)"
    "index_records p = index_records (persistence h) @ new" "length new \<le> 1"
    using contract_store.record_for_known contract_store.record_for_new [of "persistence h" ?name]
    by (cases "?name \<in> cr_name ` set (index_records (persistence h))") (fastforce simp: image_iff)+
  obtain h1 where h1: "initializeContract contract_index_ops ?name ?f h = (h1, Inr True)"
    "persistence h1 = p" "chain h1 = c"
    using p(1) assms(4) by (auto simp: initializeContract_def registerContract_def Let_def)
  have "length (index_records (persistence h1)) \<le> 246" using h1(2) p(2,3) assms(5) by simp
  from initialized_space [OF assms(2) h1(1) this] obtain r where
    r: "r \<in> set (index_records (persistence h1))" "cr_name r = ?name"
      "getSpaceId h1 ?name = Inr (contractObjectSpaceId r)"
      "map_find (getLoadedContracts h1) (contractObjectSpaceId r) = Some ?name" by blast
  have "indexes_of ops (chain h1) (contractObjectSpaceId r) = Inr []" using assms(7) h1(3) by simp
  from MultiTableMonitor_complete [OF assms(6) this, of "next_monitor n" ?name "monitor_heap n"]
  obtain d heap where m: "MultiTableMonitor ops (next_monitor n) ?name (contractObjectSpaceId r) (chain h1) (monitor_heap n) =
      (d, heap, Inr \<lparr>monitor_id = next_monitor n, contractName = ?name, spaceId = contractObjectSpaceId r, monitors = []\<rparr>)"
    "attached d = attached c"
    using h1(3) by (auto simp: fresh_monitors_def)
  show ?thesis
    using assms(1,3) h1(1) m r
    by (simp add: is_example_library_def initializePlugin_def initializePlugin_try_def observeContract_name_def
        observeContract_def getLoadedContracts_def Let_def) (rule exI [of _ r], simp)
qed

end
