(* ===== verification/Database_Dump.thy ===== *)
theory Database_Dump
  imports Plugin_Loader
begin

text \<open>
  Inspecting the contracts' tables, from \<open>ChainHandler::inspectContractDatabase\<close>, and the dump of all of
  them to the log, from \<open>ContractNode::dumpContractDatabases\<close>. Reading objects may throw, which ends the
  dump where it is.
\<close>

section \<open>Inspecting and dumping contract databases\<close>

text \<open>Reading the database: the objects of an index in order, an object as a variant object, and the
  type in its id, if it has a member of that name.\<close>

record ('c, 'obj, 'o) db_reader =
  objects_of :: "'c \<Rightarrow> u8 \<times> u8 \<Rightarrow> 'obj list"
  read_object :: "'obj \<Rightarrow> 'o variant_object res"
  id_type :: "'o variant_object \<Rightarrow> u8 res option"

definition inspect_all_objects ::
  "('c, 'obj, 'o) db_reader \<Rightarrow> ('o variant_object \<Rightarrow> 's \<Rightarrow> 's \<times> unit res) \<Rightarrow> 'c \<Rightarrow> u8 \<times> u8 \<Rightarrow> 's \<Rightarrow> 's \<times> unit res" where
  "inspect_all_objects R f c idx =
     for_each_st (\<lambda>obj s. case read_object R obj of Inl e \<Rightarrow> (s, Inl e) | Inr v \<Rightarrow> f v s) (objects_of R c idx)"

definition inspectContractDatabase ::
  "'c db_ops \<Rightarrow> ('c, 'obj, 'o) db_reader \<Rightarrow> ('c, 'p) chain_handler \<Rightarrow> u8 \<Rightarrow>
   ('o variant_object \<Rightarrow> 's \<Rightarrow> 's \<times> unit res) \<Rightarrow> 's \<Rightarrow> 's \<times> unit res" where
  "inspectContractDatabase ops R h space f s =
     (case indexes_of ops (chain h) space of
        Inl e \<Rightarrow> (s, Inl e)
      | Inr idxs \<Rightarrow> for_each_st (inspect_all_objects R f (chain h)) idxs s)"

definition inspectContractDatabase_name ::
  "'c db_ops \<Rightarrow> ('c, 'obj, 'o) db_reader \<Rightarrow> ('c, 'p) chain_handler \<Rightarrow> string \<Rightarrow>
   ('o variant_object \<Rightarrow> 's \<Rightarrow> 's \<times> unit res) \<Rightarrow> 's \<Rightarrow> 's \<times> unit res" where
  "inspectContractDatabase_name ops R h name f s =
     (case getSpaceId h name of Inl e \<Rightarrow> (s, Inl e) | Inr space \<Rightarrow> inspectContractDatabase ops R h space f s)"

text \<open>The lambda \<open>dumper\<close>: its captured \<open>typeId\<close>, an \<open>int\<close> that starts at -1, and the log.\<close>

definition dumper ::
  "('c, 'obj, 'o) db_reader \<Rightarrow> 'o variant_object \<Rightarrow> int \<times> 'o log_line list \<Rightarrow>
   (int \<times> 'o log_line list) \<times> unit res" where
  "dumper R object s =
     (let (type_id, out) = s in
      case id_type R object of
        None \<Rightarrow> ((type_id, out @ [DumpObject object]), Inr ())
      | Some (Inl e) \<Rightarrow> ((type_id, out), Inl e)
      | Some (Inr newTypeId) \<Rightarrow>
          if uint newTypeId \<noteq> type_id
          then ((uint newTypeId, out @ [DumpBlank, DumpTable (uint newTypeId), DumpObject object]), Inr ())
          else ((type_id, out @ [DumpObject object]), Inr ()))"

definition dump_contract ::
  "'c db_ops \<Rightarrow> ('c, 'obj, 'o) db_reader \<Rightarrow> ('c, 'p) chain_handler \<Rightarrow> u8 \<times> string \<Rightarrow>
   'o log_line list \<Rightarrow> 'o log_line list \<times> unit res" where
  "dump_contract ops R h contract out =
     (let (id, name) = contract;
          ((_, out'), r) = inspectContractDatabase ops R h id (dumper R) (- 1, out @ [DumpContract name])
      in (out', r))"

text \<open>The log after the dump, and whether the dump was left by an exception: what it had written stays.\<close>

definition dumpContractDatabases ::
  "'c db_ops \<Rightarrow> ('c, 'obj, 'o) db_reader \<Rightarrow> ('c, 'p, 'o, 'lib, 'w) node \<Rightarrow> 'o log_line list \<times> unit res" where
  "dumpContractDatabases ops R n =
     (case chainHandler n of
        None \<Rightarrow> (log_lines n, Inl (UB ''null chainHandler''))
      | Some h \<Rightarrow> for_each_st (dump_contract ops R h) (getLoadedContracts h) (log_lines n))"

text \<open>The dump that is due: the contract's heading, then for every table with objects a blank line, the
  table's heading and its objects.\<close>

definition table_dump :: "('obj \<Rightarrow> 'o variant_object) \<Rightarrow> u8 \<times> 'obj list \<Rightarrow> 'o log_line list" where
  "table_dump val t =
     (if snd t = [] then []
      else [DumpBlank, DumpTable (uint (fst t))] @ map (\<lambda>x. DumpObject (val x)) (snd t))"

definition readable :: "('c, 'obj, 'o) db_reader \<Rightarrow> ('obj \<Rightarrow> 'o variant_object) \<Rightarrow> 'c \<Rightarrow> (u8 \<times> u8) list \<Rightarrow> bool" where
  "readable R val c idxs \<longleftrightarrow> (\<forall>idx \<in> set idxs. \<forall>x \<in> set (objects_of R c idx).
     read_object R x = Inr (val x) \<and> id_type R (val x) = Some (Inr (snd idx)))"

lemma dump_same_table:
  assumes "\<forall>x \<in> set objs. read_object R x = Inr (val x) \<and> id_type R (val x) = Some (Inr t)"
  shows "for_each_st (\<lambda>obj s. case read_object R obj of Inl e \<Rightarrow> (s, Inl e) | Inr v \<Rightarrow> dumper R v s) objs (uint t, out) =
    ((uint t, out @ map (\<lambda>x. DumpObject (val x)) objs), Inr ())"
  using assms by (induction objs arbitrary: out) (auto simp: dumper_def)

lemma dump_table:
  assumes "\<forall>x \<in> set (objects_of R c idx). read_object R x = Inr (val x) \<and> id_type R (val x) = Some (Inr (snd idx))"
    and "k \<noteq> uint (snd idx)"
  shows "inspect_all_objects R (dumper R) c idx (k, out) =
    ((if objects_of R c idx = [] then k else uint (snd idx), out @ table_dump val (snd idx, objects_of R c idx)), Inr ())"
proof (cases "objects_of R c idx")
  case (Cons x objs)
  then have "\<forall>x \<in> set objs. read_object R x = Inr (val x) \<and> id_type R (val x) = Some (Inr (snd idx))"
    using assms(1) by simp
  from dump_same_table [OF this] assms Cons show ?thesis
    by (simp add: inspect_all_objects_def dumper_def table_dump_def)
qed (simp add: inspect_all_objects_def table_dump_def)

lemma inj_uint_u8: "inj (uint :: u8 \<Rightarrow> int)"
  by (rule injI) (simp add: word_uint_eq_iff)

lemma dump_tables:
  assumes "readable R val c idxs" "distinct (map snd idxs)" "k \<notin> uint ` snd ` set idxs"
  shows "\<exists>k'. for_each_st (inspect_all_objects R (dumper R) c) idxs (k, out) =
    ((k', out @ concat (map (\<lambda>idx. table_dump val (snd idx, objects_of R c idx)) idxs)), Inr ())"
  using assms
proof (induction idxs arbitrary: k out)
  case (Cons idx idxs)
  let ?k = "if objects_of R c idx = [] then k else uint (snd idx)"
  have first: "inspect_all_objects R (dumper R) c idx (k, out) =
      ((?k, out @ table_dump val (snd idx, objects_of R c idx)), Inr ())"
    by (rule dump_table) (use Cons.prems in \<open>auto simp: readable_def\<close>)
  have "?k \<notin> uint ` snd ` set idxs"
  proof (cases "objects_of R c idx = []")
    case False
    have "snd idx \<notin> snd ` set idxs" using Cons.prems(2) by simp
    with False show ?thesis by (simp only: if_False inj_image_mem_iff [OF inj_uint_u8] not_False_eq_True)
  next
    case True
    with Cons.prems(3) show ?thesis by simp
  qed
  moreover have "readable R val c idxs" "distinct (map snd idxs)"
    using Cons.prems(1,2) by (auto simp: readable_def)
  ultimately show ?case
    using Cons.IH [of ?k "out @ table_dump val (snd idx, objects_of R c idx)"] first by auto
qed simp

text \<open>
  C21. The database dump: when every object can be read and carries its table's type in its id, and the
  tables of a space have distinct types, the dump lists the loaded contracts in space order and under
  each its tables in index order, a heading before each table that has objects and none repeated, with
  every object of the table below it, and changes nothing else.
\<close>

theorem dumpContractDatabases_spec:
  assumes "chainHandler n = Some h"
    and "\<forall>contract \<in> set (loadedContracts h). indexes_of ops (chain h) (fst contract) = Inr (idxs (fst contract)) \<and>
      readable R val (chain h) (idxs (fst contract)) \<and> distinct (map snd (idxs (fst contract)))"
  shows "dumpContractDatabases ops R n =
    (log_lines n @ concat (map (\<lambda>(space, name). DumpContract name #
      concat (map (\<lambda>idx. table_dump val (snd idx, objects_of R (chain h) idx)) (idxs space)))
      (loadedContracts h)), Inr ())"
proof -
  have one: "dump_contract ops R h (space, name) out = (out @ DumpContract name #
      concat (map (\<lambda>idx. table_dump val (snd idx, objects_of R (chain h) idx)) (idxs space)), Inr ())"
    if "(space, name) \<in> set (loadedContracts h)" for space name out
  proof -
    have neg: "- 1 \<notin> uint ` snd ` set (idxs space)" by (auto simp: uint_ge_0) (metis uint_ge_0 neg_0_le_iff_le not_one_le_zero)
    have "readable R val (chain h) (idxs space)" "distinct (map snd (idxs space))"
      "indexes_of ops (chain h) space = Inr (idxs space)"
      using assms(2) that by auto
    with dump_tables [OF _ _ neg, of R val "chain h" "out @ [DumpContract name]"] show ?thesis
      by (auto simp: dump_contract_def inspectContractDatabase_def)
  qed
  have "for_each_st (dump_contract ops R h) cs out = (out @ concat (map (\<lambda>(space, name). DumpContract name #
      concat (map (\<lambda>idx. table_dump val (snd idx, objects_of R (chain h) idx)) (idxs space))) cs), Inr ())"
    if "set cs \<subseteq> set (loadedContracts h)" for cs out
    using that by (induction cs arbitrary: out) (auto simp: one)
  then show ?thesis using assms(1) by (simp add: dumpContractDatabases_def getLoadedContracts_def)
qed

definition sample_reader :: "(sample_tables, u8 \<times> nat, nat) db_reader" where
  "sample_reader = \<lparr>
     objects_of = (\<lambda>c idx. if idx = (10, 0) then [(0, 5), (0, 6)] else if idx = (10, 3) then [(3, 7)] else []),
     read_object = (\<lambda>x. Inr (Obj (256 * snd x + unat (fst x)))),
     id_type = (\<lambda>v. case v of Obj n \<Rightarrow> Some (Inr (of_nat n)) | MutObj _ \<Rightarrow> None)\<rparr>"

definition dump_sample_chain :: "(sample_tables, contract_index) chain_handler" where
  "dump_sample_chain = sample_chain\<lparr>
     chain := \<lparr>all_indexes = [(10, 0), (10, 1), (10, 3)], next_address = 0, attached_monitors = []\<rparr>,
     loadedContracts := [(10, ''voting''), (11, ''escrow'')]\<rparr>"

theorem dumpContractDatabases_spec_witness:
  "dumpContractDatabases sample_db_ops sample_reader (sample_node\<lparr>chainHandler := Some dump_sample_chain\<rparr>) =
    ([DumpContract ''voting'', DumpBlank, DumpTable 0, DumpObject (Obj 1280), DumpObject (Obj 1536),
         DumpBlank, DumpTable 3, DumpObject (Obj 1795), DumpContract ''escrow''], Inr ())"
  using dumpContractDatabases_spec [of "sample_node\<lparr>chainHandler := Some dump_sample_chain\<rparr>" dump_sample_chain
      sample_db_ops "\<lambda>k. filter (\<lambda>idx. fst idx = k) [(10, 0), (10, 1), (10, 3)]" sample_reader
      "\<lambda>x. Obj (256 * snd x + unat (fst x))"]
  by (simp add: dump_sample_chain_def sample_db_ops_def sample_reader_def readable_def table_dump_def sample_node_def)

section \<open>A dump that throws\<close>

lemma dumper_extends: "\<exists>ls. snd (fst (dumper R object (k, out))) = out @ ls"
  by (auto simp: dumper_def split: option.split sum.split)

lemma inspect_extends:
  "\<exists>ls. snd (fst (inspect_all_objects R (dumper R) c idx (k, out))) = out @ ls"
proof -
  have step: "\<exists>ls. snd (fst (case read_object R obj of Inl e \<Rightarrow> (s, Inl e) | Inr v \<Rightarrow> dumper R v s)) = out @ ls"
    if "\<exists>ls. snd s = out @ ls" for obj s
  proof (cases "read_object R obj")
    case (Inr v)
    with that dumper_extends [of R v "fst s" "snd s"] show ?thesis by auto
  qed (use that in simp)
  show ?thesis
    unfolding inspect_all_objects_def
    by (rule for_each_st_keeps [where I = "\<lambda>s. \<exists>ls. snd s = out @ ls"]) (use step in auto)
qed

lemma dump_contract_extends: "\<exists>ls. fst (dump_contract ops R h contract out) = out @ ls"
proof -
  obtain id name where contract: "contract = (id, name)" by (cases contract)
  have "\<exists>ls. snd (fst (for_each_st (inspect_all_objects R (dumper R) (chain h)) idxs (k, out))) = out @ ls" for idxs k out
    by (rule for_each_st_keeps [where I = "\<lambda>s. \<exists>ls. snd s = out @ ls"]) (auto, metis append_assoc inspect_extends)
  then have "\<exists>ls. snd (fst (inspectContractDatabase ops R h id (dumper R) (- 1, out @ [DumpContract name]))) =
      (out @ [DumpContract name]) @ ls"
    by (cases "indexes_of ops (chain h) id") (simp_all only: inspectContractDatabase_def sum.case, auto)
  then show ?thesis by (auto simp: contract dump_contract_def case_prod_unfold Let_def)
qed

text \<open>Whatever happens in a dump, the log only grows.\<close>

lemma dump_keeps_log: "\<exists>ls. fst (dumpContractDatabases ops R n) = log_lines n @ ls"
proof (cases "chainHandler n")
  case (Some h)
  have "\<exists>ls. fst (for_each_st (dump_contract ops R h) cs out) = out @ ls" for cs out
    by (rule for_each_st_keeps [where I = "\<lambda>s. \<exists>ls. s = out @ ls"]) (auto, metis append_assoc dump_contract_extends)
  with Some show ?thesis by (simp add: dumpContractDatabases_def)
qed (simp add: dumpContractDatabases_def)

end
