(* ===== verification/P2p_Handler.thy ===== *)
theory P2p_Handler
  imports Prelude
begin

text \<open>
  \<open>Modules/P2pHandler.hpp\<close> and \<open>.cpp\<close>: the delegate through which the P2P network node asks about
  our chain (\<open>NodeInterface\<close>) and the handler's own state. The chain database and the network node
  are Graphene's, not this repository's: the database is the record \<open>chain_db\<close> of the queries the
  code makes, the node and the connected slots are functions on a world \<open>'w\<close>. Block numbers are
  \<open>uint32_t\<close>, so their arithmetic wraps.
\<close>

section \<open>The queries on the chain database\<close>

text \<open>A signed block, as far as the node reads it; \<open>block_id\<close> is the value of \<open>id()\<close>.\<close>

record ('id, 'trx) signed_block =
  previous :: 'id
  block_id :: 'id
  timestamp :: u32
  transactions :: "'trx list"

record ('id, 'trx) chain_db =
  zero_id :: 'id
  num_from_id :: "'id \<Rightarrow> u32"
  block_message_type :: u32
  trx_message_type :: u32
  head_block_num :: u32
  head_block_id :: 'id
  db_chain_id :: 'id
  last_non_undoable_block_num :: u32
  get_block_id_for_num :: "u32 \<Rightarrow> 'id res"
  is_known_block :: "'id \<Rightarrow> bool"
  is_known_transaction :: "'id \<Rightarrow> bool"
  fetch_block_by_id :: "'id \<Rightarrow> ('id, 'trx) signed_block option"
  get_recent_transaction :: "'id \<Rightarrow> 'trx res"
  get_block_ids_on_fork :: "'id \<Rightarrow> 'id list res"
  block_interval :: u8

record 'id item_id =
  item_type :: u32
  item_hash :: 'id

datatype ('id, 'trx) message =
    BlockMessage "('id, 'trx) signed_block"
  | TrxMessage 'trx

section \<open>Simple queries\<close>

definition blockIsInOurChain :: "('id, 'trx) chain_db \<Rightarrow> 'id \<Rightarrow> bool res" where
  "blockIsInOurChain db i =
     (let block_num = num_from_id db i
      in rbind (get_block_id_for_num db block_num)
           (\<lambda>block_id_in_preferred_chain. Inr (i = block_id_in_preferred_chain)))"

definition has_item :: "('id, 'trx) chain_db \<Rightarrow> 'id item_id \<Rightarrow> bool" where
  "has_item db i =
     (if item_type i = block_message_type db then is_known_block db (item_hash i)
      else if item_type i = trx_message_type db then is_known_transaction db (item_hash i)
      else False)"

definition get_item :: "('id, 'trx) chain_db \<Rightarrow> 'id item_id \<Rightarrow> ('id, 'trx) message res" where
  "get_item db i =
     (if item_type i = block_message_type db then
        (case fetch_block_by_id db (item_hash i) of
           None \<Rightarrow> Inl (FcAssert ''Could not find requested block'')
         | Some found \<Rightarrow> Inr (BlockMessage found))
      else if item_type i = trx_message_type db then
        rbind (get_recent_transaction db (item_hash i)) (\<lambda>t. Inr (TrxMessage t))
      else Inl (FcAssert ''Unknown message type''))"

definition get_chain_id :: "('id, 'trx) chain_db \<Rightarrow> 'id" where
  "get_chain_id db = db_chain_id db"

definition get_block_number :: "('id, 'trx) chain_db \<Rightarrow> 'id \<Rightarrow> u32" where
  "get_block_number db i = num_from_id db i"

text \<open>The result for an unknown block, \<open>fc::time_point::min()\<close>, is a constant of the FC library.\<close>

definition get_block_time :: "('id, 'trx) chain_db \<Rightarrow> u32 \<Rightarrow> 'id \<Rightarrow> u32" where
  "get_block_time db time_min i =
     (case fetch_block_by_id db i of None \<Rightarrow> time_min | Some found \<Rightarrow> timestamp found)"

definition get_head_block_id :: "('id, 'trx) chain_db \<Rightarrow> 'id" where
  "get_head_block_id db = head_block_id db"

definition estimate_last_known_fork_from_git_revision_timestamp :: "u32 \<Rightarrow> u32" where
  "estimate_last_known_fork_from_git_revision_timestamp t = 0"

definition get_current_block_interval_in_seconds :: "('id, 'trx) chain_db \<Rightarrow> u8" where
  "get_current_block_interval_in_seconds db = block_interval db"

section \<open>Serving block ids to a peer\<close>

text \<open>The loop over the reversed synopsis: the first block that is the zero id or known and on our
  chain.\<close>

fun find_block_in_synopsis :: "('id, 'trx) chain_db \<Rightarrow> 'id list \<Rightarrow> 'id option res" where
  "find_block_in_synopsis db [] = Inr None"
| "find_block_in_synopsis db (b # bs) =
     (if b = zero_id db then Inr (Some b)
      else if is_known_block db b then
        rbind (blockIsInOurChain db b)
          (\<lambda>ours. if ours then Inr (Some b) else find_block_in_synopsis db bs)
      else find_block_in_synopsis db bs)"

definition last_known_block :: "('id, 'trx) chain_db \<Rightarrow> 'id list \<Rightarrow> 'id res" where
  "last_known_block db blockchain_synopsis =
     (if blockchain_synopsis = [] \<or>
         (length blockchain_synopsis = 1 \<and> blockchain_synopsis ! 0 = zero_id db)
      then Inr (zero_id db)
      else rbind (find_block_in_synopsis db (rev blockchain_synopsis))
        (\<lambda>found. case found of None \<Rightarrow> Inl UnreachableFork | Some b \<Rightarrow> Inr b))"

text \<open>The collecting loop. It ends even if the 32-bit counter wraps: an iteration either fills the
  result towards the limit or steps the counter from 0 to 1.\<close>

function collect_block_ids ::
  "('id, 'trx) chain_db \<Rightarrow> u32 \<Rightarrow> u32 \<Rightarrow> 'id list \<Rightarrow> 'id list res" where
  "collect_block_ids db limit num result =
     (if num \<le> head_block_num db \<and> length result < unat limit then
        if num > 0 then
          (case get_block_id_for_num db num of
             Inl e \<Rightarrow> Inl e
           | Inr i \<Rightarrow> collect_block_ids db limit (num + 1) (result @ [i]))
        else collect_block_ids db limit (num + 1) result
      else Inr result)"
  by pat_completeness auto
termination
  by (relation "measures [\<lambda>(db, limit, num, result). unat limit - length result,
                          \<lambda>(db, limit, num, result). if num = 0 then 1 else 0]") (auto simp: word_gt_0)

declare collect_block_ids.simps [simp del]

text \<open>The result and the out-parameter \<open>remaining_item_count\<close>.\<close>

definition get_block_ids ::
  "('id, 'trx) chain_db \<Rightarrow> 'id list \<Rightarrow> u32 \<Rightarrow> ('id list \<times> u32) res" where
  "get_block_ids db blockchain_synopsis limit =
     (if head_block_num db = 0 then Inr ([], 0)
      else rbind (last_known_block db blockchain_synopsis) (\<lambda>last_known_block_id.
        rbind (collect_block_ids db limit (num_from_id db last_known_block_id) []) (\<lambda>result.
          Inr (result,
            if result \<noteq> [] \<and> num_from_id db (last result) < head_block_num db
            then head_block_num db - num_from_id db (last result) else 0))))"

section \<open>Summarising our chain\<close>

text \<open>An \<open>assert\<close> aborts only when \<open>NDEBUG\<close> is not defined.\<close>

definition c_assert :: "bool \<Rightarrow> bool \<Rightarrow> unit res" where
  "c_assert ndebug cond = (if ndebug \<or> cond then Inr () else Inl AssertAbort)"

text \<open>What the first part of \<open>get_blockchain_synopsis\<close> computes: the early return, or the low block
  number, the last number shared with the main chain, the high number and the fork's blocks in
  ascending order.\<close>

datatype 'id synopsis_range =
    EmptySynopsis
  | SynopsisRange (range_low: u32) (range_non_fork_high: u32) (range_high: u32) (range_fork: "'id list")

definition synopsis_on_fork ::
  "bool \<Rightarrow> ('id, 'trx) chain_db \<Rightarrow> 'id \<Rightarrow> u32 \<Rightarrow> 'id synopsis_range res" where
  "synopsis_on_fork ndebug db reference_point low_block_num =
     rbind (get_block_ids_on_fork db reference_point) (\<lambda>fork_history.
     rbind (c_assert ndebug (2 \<le> length fork_history)) (\<lambda>_.
     if fork_history = [] then Inl (UB ''front() of an empty vector'') else
     rbind (c_assert ndebug (hd fork_history = reference_point)) (\<lambda>_.
     let last_non_fork_block = last fork_history;
         fork_history = rev (butlast fork_history);
         non_fork_high_block_num =
           (if last_non_fork_block = zero_id db then 0 else num_from_id db last_non_fork_block);
         high_block_num = non_fork_high_block_num + of_nat (length fork_history)
     in rbind (c_assert ndebug (high_block_num = num_from_id db (last fork_history))) (\<lambda>_.
        if non_fork_high_block_num < low_block_num then Inl BlockOlderThanUndoHistory
        else Inr (SynopsisRange low_block_num non_fork_high_block_num high_block_num
                    fork_history)))))"

definition synopsis_setup ::
  "bool \<Rightarrow> ('id, 'trx) chain_db \<Rightarrow> 'id \<Rightarrow> 'id synopsis_range res" where
  "synopsis_setup ndebug db reference_point =
     (let low_block_num = last_non_undoable_block_num db in
      if reference_point \<noteq> zero_id db then
        rbind (blockIsInOurChain db reference_point) (\<lambda>ours.
          if ours then
            let reference_point_block_num = num_from_id db reference_point
            in rbind (c_assert ndebug (reference_point_block_num > 0)) (\<lambda>_.
               Inr (SynopsisRange
                 (if reference_point_block_num < low_block_num then reference_point_block_num
                  else low_block_num)
                 reference_point_block_num reference_point_block_num []))
          else synopsis_on_fork ndebug db reference_point low_block_num)
      else if head_block_num db = 0 then Inr EmptySynopsis
      else Inr (SynopsisRange low_block_num (head_block_num db) (head_block_num db) []))"

text \<open>The block that an iteration pushes.\<close>

definition synopsis_block ::
  "('id, 'trx) chain_db \<Rightarrow> 'id list \<Rightarrow> u32 \<Rightarrow> u32 \<Rightarrow> 'id res" where
  "synopsis_block db fork_history non_fork_high low =
     (if low \<le> non_fork_high then get_block_id_for_num db low
      else let k = unat (low - non_fork_high - 1)
           in if k < length fork_history then Inr (fork_history ! k)
              else Inl (UB ''fork_history index out of range''))"

text \<open>The \<open>do ... while\<close> loop. Whether it ends is not plain from its text, so it is a partial
  function: \<open>None\<close> is a run that never ends.\<close>

partial_function (option) synopsis_loop ::
  "('id, 'trx) chain_db \<Rightarrow> 'id list \<Rightarrow> u32 \<Rightarrow> u32 \<Rightarrow> u32 \<Rightarrow> u32 \<Rightarrow> 'id list \<Rightarrow> 'id list res option" where
  "synopsis_loop db fork_history non_fork_high high true_high low synopsis =
     (case synopsis_block db fork_history non_fork_high low of
        Inl e \<Rightarrow> Some (Inl e)
      | Inr i \<Rightarrow>
          (let low' = low + (true_high - low + 2) div 2
           in if low' \<le> high
              then synopsis_loop db fork_history non_fork_high high true_high low' (synopsis @ [i])
              else Some (Inr (synopsis @ [i]))))"

definition get_blockchain_synopsis ::
  "bool \<Rightarrow> ('id, 'trx) chain_db \<Rightarrow> 'id \<Rightarrow> u32 \<Rightarrow> 'id list res option" where
  "get_blockchain_synopsis ndebug db reference_point number_of_blocks_after_reference_point =
     (case synopsis_setup ndebug db reference_point of
        Inl e \<Rightarrow> Some (Inl e)
      | Inr EmptySynopsis \<Rightarrow> Some (Inr [])
      | Inr (SynopsisRange low non_fork_high high fork_history) \<Rightarrow>
          synopsis_loop db fork_history non_fork_high high
            (high + number_of_blocks_after_reference_point) (if low = 0 then 1 else low) [])"

section \<open>The handler's state and the node's callbacks\<close>

text \<open>The slots connected to the three signals and the network node's operations, each a function on
  the world that may throw. The handler's own state is the flag \<open>syncing\<close>.\<close>

type_synonym 'w effect = "'w \<Rightarrow> 'w \<times> unit res"

record ('id, 'trx, 'w) p2p_peers =
  blockReceived :: "('id, 'trx) signed_block \<Rightarrow> 'w effect"
  transactionReceived :: "'trx \<Rightarrow> 'w effect"
  syncFinished :: "'w effect"
  node_sync_from :: "u32 \<Rightarrow> 'id \<Rightarrow> 'w effect"
  node_listen :: "'w effect"
  node_connect :: "'w effect"
  trx_message_id :: "'trx \<Rightarrow> 'id"

record 'w p2p_state =
  syncing :: bool
  world :: 'w

definition run_effect :: "'w effect \<Rightarrow> 'w p2p_state \<Rightarrow> 'w p2p_state \<times> unit res" where
  "run_effect f s = (let (w, r) = f (world s) in (s\<lparr>world := w\<rparr>, r))"

text \<open>\<open>handle_block\<close>: the state, the out-parameter with the transactions' message ids, and the
  returned flag.\<close>

definition handle_block ::
  "('id, 'trx, 'w) p2p_peers \<Rightarrow> ('id, 'trx) signed_block \<Rightarrow> bool \<Rightarrow> 'id list \<Rightarrow> 'w p2p_state \<Rightarrow>
   'w p2p_state \<times> 'id list \<times> bool res" where
  "handle_block p block sync_mode contained_ids s =
     (let (s1, r1) = run_effect (blockReceived p block) s in
      case r1 of
        Inl e \<Rightarrow> (s1, contained_ids, Inl e)
      | Inr _ \<Rightarrow>
          (let contained_ids' = map (trx_message_id p) (transactions block) in
           if \<not> sync_mode \<and> syncing s1 then
             (let (s2, r2) = run_effect (syncFinished p) (s1\<lparr>syncing := False\<rparr>) in
              case r2 of
                Inl e \<Rightarrow> (s2, contained_ids', Inl e)
              | Inr _ \<Rightarrow> (s2, contained_ids', Inr False))
           else (s1, contained_ids', Inr False)))"

definition handle_transaction ::
  "('id, 'trx, 'w) p2p_peers \<Rightarrow> 'trx \<Rightarrow> 'w p2p_state \<Rightarrow> 'w p2p_state \<times> unit res" where
  "handle_transaction p trx s = run_effect (transactionReceived p trx) s"

definition isSyncing :: "'w p2p_state \<Rightarrow> bool" where
  "isSyncing s = syncing s"

definition syncFrom ::
  "('id, 'trx, 'w) p2p_peers \<Rightarrow> ('id, 'trx) chain_db \<Rightarrow> 'id \<Rightarrow> 'w p2p_state \<Rightarrow>
   'w p2p_state \<times> unit res" where
  "syncFrom p db blockId s =
     (let (s1, r) = run_effect (node_sync_from p (block_message_type db) blockId) s in
      case r of Inl e \<Rightarrow> (s1, Inl e) | Inr _ \<Rightarrow> (s1\<lparr>syncing := True\<rparr>, Inr ()))"

definition connectToSeeds ::
  "('id, 'trx, 'w) p2p_peers \<Rightarrow> 'w p2p_state \<Rightarrow> 'w p2p_state \<times> unit res" where
  "connectToSeeds p s =
     (let (s1, r) = run_effect (node_listen p) s in
      case r of Inl e \<Rightarrow> (s1, Inl e) | Inr _ \<Rightarrow> run_effect (node_connect p) s1)"

text \<open>Callbacks with nothing to do: an unknown message is logged and dropped, status notices are
  ignored.\<close>

definition handle_message :: "('id, 'trx) message \<Rightarrow> 'w p2p_state \<Rightarrow> 'w p2p_state" where
  "handle_message m s = s"

definition sync_status :: "u32 \<Rightarrow> u32 \<Rightarrow> 'w p2p_state \<Rightarrow> 'w p2p_state" where
  "sync_status a b s = s"

definition connection_count_changed :: "u32 \<Rightarrow> 'w p2p_state \<Rightarrow> 'w p2p_state" where
  "connection_count_changed c s = s"

text \<open>\<open>error_encountered\<close> only logs the message and the error.\<close>

definition error_encountered :: "string \<Rightarrow> cpp_error option \<Rightarrow> 'w p2p_state \<Rightarrow> 'w p2p_state" where
  "error_encountered message error s = s"

section \<open>What the database promises\<close>

text \<open>
  The behaviour of the chain database that the code relies on: the zero id carries number 0, and
  every number from 1 to the head has a block id that carries it. The head stays below the last
  32-bit number.
\<close>

definition main_chain_ok :: "('id, 'trx) chain_db \<Rightarrow> bool" where
  "main_chain_ok db \<longleftrightarrow>
     num_from_id db (zero_id db) = 0 \<and> unat (head_block_num db) < 2 ^ 32 - 1 \<and>
     (\<forall>n. 0 < n \<and> n \<le> head_block_num db \<longrightarrow>
        (\<exists>i. get_block_id_for_num db n = Inr i \<and> num_from_id db i = n))"

definition main_id :: "('id, 'trx) chain_db \<Rightarrow> nat \<Rightarrow> 'id" where
  "main_id db n = (case get_block_id_for_num db (of_nat n) of Inl _ \<Rightarrow> zero_id db | Inr i \<Rightarrow> i)"

lemma main_chain_block:
  assumes "main_chain_ok db" "0 < n" "n \<le> head_block_num db"
  shows "get_block_id_for_num db n = Inr (main_id db (unat n))"
    and "num_from_id db (main_id db (unat n)) = n"
proof -
  obtain i where "get_block_id_for_num db n = Inr i" "num_from_id db i = n"
    using assms by (auto simp: main_chain_ok_def)
  then show "get_block_id_for_num db n = Inr (main_id db (unat n))"
    and "num_from_id db (main_id db (unat n)) = n"
    by (simp_all add: main_id_def)
qed

lemma num_main_id:
  assumes "main_chain_ok db" "0 < n" "n \<le> unat (head_block_num db)"
  shows "num_from_id db (main_id db n) = of_nat n"
proof -
  have n: "unat (of_nat n :: u32) = n"
    using assms by (simp add: main_chain_ok_def unat_of_nat)
  then have "0 < (of_nat n :: u32)" "of_nat n \<le> head_block_num db"
    using assms by (simp_all add: word_less_nat_alt word_le_nat_alt)
  with assms(1) show ?thesis using main_chain_block(2) [of db "of_nat n"] n by simp
qed

lemma main_chain_succ:
  assumes "main_chain_ok db" "n \<le> head_block_num db"
  shows "unat (n + 1) = unat n + 1"
proof -
  have "unat n + 1 < 2 ^ 32"
    using assms by (simp add: main_chain_ok_def word_le_nat_alt)
  then show ?thesis by (simp add: unat_word_ariths)
qed

section \<open>Serving block ids: properties\<close>

lemma collect_block_ids_eq:
  "main_chain_ok db \<Longrightarrow> 0 < num \<Longrightarrow> unat num \<le> unat (head_block_num db) + 1 \<Longrightarrow>
    collect_block_ids db limit num result =
      Inr (result @ map (main_id db)
        [unat num ..< unat num +
           min (unat limit - length result) (unat (head_block_num db) + 1 - unat num)])"
proof (induction db limit num result rule: collect_block_ids.induct)
  case (1 db limit num result)
  show ?case
  proof (cases "num \<le> head_block_num db \<and> length result < unat limit")
    case True
    have succ: "unat (num + 1) = unat num + 1"
      using main_chain_succ [of db num] "1.prems" True by simp
    then have pos: "0 < num + 1" by (simp only: word_less_nat_alt) simp
    let ?k = "min (unat limit - Suc (length result)) (unat (head_block_num db) - unat num)"
    have k: "min (unat limit - length result) (unat (head_block_num db) + 1 - unat num) = Suc ?k"
      using True by (auto simp: word_le_nat_alt)
    have "collect_block_ids db limit (num + 1) (result @ [main_id db (unat num)]) =
        Inr ((result @ [main_id db (unat num)]) @
          map (main_id db) [unat (num + 1) ..< unat (num + 1) + ?k])"
      using 1 True succ pos by (subst "1.IH") (auto simp: main_chain_block word_le_nat_alt)
    then show ?thesis
      using 1 True succ unfolding k
      by (subst collect_block_ids.simps) (simp add: main_chain_block upt_conv_Cons del: upt_Suc)
  next
    case False
    then show ?thesis
      by (subst collect_block_ids.simps) (auto simp: word_le_nat_alt not_le not_less)
  qed
qed

lemma collect_block_ids_start:
  assumes "main_chain_ok db"
  defines "n0 n \<equiv> max 1 (unat n)"
  shows "collect_block_ids db limit num [] =
    Inr (map (main_id db) [n0 num ..< n0 num + min (unat limit) (unat (head_block_num db) + 1 - n0 num)])"
proof (cases "num = 0")
  case True
  have "(1 :: u32) \<le> head_block_num db + 1 \<Longrightarrow> ?thesis" if "unat limit \<noteq> 0"
    using True that assms collect_block_ids_eq [of db 1 limit "[]"]
    by (subst collect_block_ids.simps) (simp add: n0_def)
  moreover have ?thesis if "unat limit = 0"
    using True that by (subst collect_block_ids.simps) (simp add: n0_def)
  moreover have "(1 :: u32) \<le> head_block_num db + 1"
    using main_chain_succ [OF assms(1), of "head_block_num db"] by (simp add: word_le_nat_alt)
  ultimately show ?thesis by blast
next
  case False
  then have n0: "n0 num = unat num" "0 < num"
    by (simp_all add: n0_def word_gt_0 Suc_le_eq max_def unat_gt_0)
  show ?thesis
  proof (cases "unat num \<le> unat (head_block_num db) + 1")
    case True
    with n0 assms(1) show ?thesis by (simp add: collect_block_ids_eq)
  next
    case False
    with n0 show ?thesis
      by (subst collect_block_ids.simps) (simp add: word_le_nat_alt)
  qed
qed

lemma get_block_ids_eq:
  fixes db :: "('id, 'trx) chain_db"
  assumes "main_chain_ok db" and "head_block_num db \<noteq> 0" and "last_known_block db synopsis = Inr b"
  shows "get_block_ids db synopsis limit =
    (let first = max 1 (unat (num_from_id db b));
         count = min (unat limit) (unat (head_block_num db) + 1 - first)
     in Inr (map (main_id db) [first ..< first + count],
             if count = 0 then 0 else of_nat (unat (head_block_num db) + 1 - (first + count))))"
proof -
  define first where "first = max 1 (unat (num_from_id db b))"
  define count where "count = min (unat limit) (unat (head_block_num db) + 1 - first)"
  have ids: "collect_block_ids db limit (num_from_id db b) [] = Inr (map (main_id db) [first ..< first + count])"
    using assms(1) by (simp add: collect_block_ids_start first_def count_def)
  show ?thesis
  proof (cases "count = 0")
    case True
    with ids assms show ?thesis
      unfolding Let_def first_def [symmetric] count_def [symmetric]
      by (simp add: get_block_ids_def)
  next
    case False
    then obtain k where k: "count = Suc k" by (cases count) auto
    have bound: "0 < first + k" "first + k \<le> unat (head_block_num db)"
      using k by (auto simp: first_def count_def)
    then have num: "num_from_id db (main_id db (first + k)) = of_nat (first + k)"
      using assms(1) by (intro num_main_id)
    have lt: "unat (of_nat (first + k) :: u32) = first + k"
      using bound assms(1) by (intro unat_of_nat_u32) (simp add: main_chain_ok_def)
    have less: "(of_nat (first + k) :: u32) < head_block_num db \<longleftrightarrow> first + k < unat (head_block_num db)"
      by (simp only: word_less_nat_alt lt)
    have "head_block_num db = of_nat (unat (head_block_num db))" by simp
    then have diff: "head_block_num db - of_nat (first + k) = of_nat (unat (head_block_num db) - (first + k))"
      using bound by (metis of_nat_diff)
    have eq: "head_block_num db = of_nat first + of_nat k" if "first + k = unat (head_block_num db)"
      by (simp add: that flip: of_nat_add)
    from k have "last (map (main_id db) [first ..< first + count]) = main_id db (first + k)"
      by simp
    then show ?thesis
      using False k ids assms num less diff bound
      unfolding Let_def first_def [symmetric] count_def [symmetric]
      by (simp add: get_block_ids_def) (use eq in blast)
  qed
qed

text \<open>
  C3. When our chain is not empty and the synopsis yields a starting block \<open>b\<close>, the reply is the
  contiguous segment of the main chain from that block (block 1 when it is the zero id), at most
  \<open>limit\<close> ids and never past the head, and \<open>remaining_item_count\<close> is the number of main-chain
  blocks after the last id sent. The loop ends for every limit.
\<close>

theorem get_block_ids_spec:
  fixes db :: "('id, 'trx) chain_db"
  assumes "main_chain_ok db" and "head_block_num db \<noteq> 0" and "last_known_block db synopsis = Inr b"
  shows "get_block_ids db synopsis limit =
    (let first = max 1 (unat (num_from_id db b));
         count = min (unat limit) (unat (head_block_num db) + 1 - first)
     in Inr (map (main_id db) [first ..< first + count],
             if count = 0 then 0 else of_nat (unat (head_block_num db) + 1 - (first + count))))"
  using assms by (rule get_block_ids_eq)

text \<open>A sample chain: five main-chain blocks \<open>(n, 0)\<close> and a fork \<open>(4, 1), (5, 1)\<close> after block 3.\<close>

definition sample_db :: "(u32 \<times> nat, nat) chain_db" where
  "sample_db = \<lparr>zero_id = (0, 0), num_from_id = fst, block_message_type = 1001,
     trx_message_type = 1000, head_block_num = 5, head_block_id = (5, 0), db_chain_id = (77, 7),
     last_non_undoable_block_num = 2,
     get_block_id_for_num = (\<lambda>n. if 0 < n \<and> n \<le> 5 then Inr (n, 0) else Inl (FcException ''no block'')),
     is_known_block = (\<lambda>b. 0 < fst b \<and> fst b \<le> 5 \<and> snd b \<le> 1),
     is_known_transaction = (\<lambda>_. False), fetch_block_by_id = (\<lambda>_. None),
     get_recent_transaction = (\<lambda>_. Inl (FcException ''no transaction'')),
     get_block_ids_on_fork = (\<lambda>b. if b = (5, 1) then Inr [(5, 1), (4, 1), (3, 0)]
                                  else Inl (FcException ''no fork'')),
     block_interval = 3\<rparr>"

lemma sample_db_ok: "main_chain_ok sample_db"
  by (auto simp: main_chain_ok_def sample_db_def)

theorem get_block_ids_spec_witness:
  "get_block_ids sample_db [(2, 0), (5, 1)] 2 = Inr ([(2, 0), (3, 0)], 2)"
proof -
  have "last_known_block sample_db [(2, 0), (5, 1)] = Inr (2, 0)"
    by (simp add: last_known_block_def sample_db_def blockIsInOurChain_def)
  from get_block_ids_spec [OF sample_db_ok _ this, of 2]
  show ?thesis
    by (simp add: sample_db_def main_id_def Let_def)
qed

text \<open>
  For a synopsis of ids whose known members carry main-chain numbers, the starting block is the
  last id of the synopsis that is the zero id or a known block of our own chain; if there is none,
  the peer is reported to be on an unreachable fork. An empty synopsis starts at the zero id.
\<close>

lemma last_known_block_spec:
  assumes "main_chain_ok db"
    and "\<forall>b \<in> set synopsis. is_known_block db b \<longrightarrow>
           0 < num_from_id db b \<and> num_from_id db b \<le> head_block_num db"
  shows "last_known_block db synopsis =
    (if synopsis = [] then Inr (zero_id db)
     else case find (\<lambda>b. b = zero_id db \<or>
                 (is_known_block db b \<and> b = main_id db (unat (num_from_id db b)))) (rev synopsis) of
            None \<Rightarrow> Inl UnreachableFork | Some b \<Rightarrow> Inr b)"
proof -
  let ?ours = "\<lambda>b. b = zero_id db \<or> (is_known_block db b \<and> b = main_id db (unat (num_from_id db b)))"
  have find: "find_block_in_synopsis db bs = Inr (find ?ours bs)"
    if "\<forall>b \<in> set bs. is_known_block db b \<longrightarrow>
          0 < num_from_id db b \<and> num_from_id db b \<le> head_block_num db" for bs
    using that assms(1)
    by (induction bs) (auto simp: blockIsInOurChain_def main_chain_block)
  have "find_block_in_synopsis db (rev synopsis) = Inr (find ?ours (rev synopsis))"
    using assms(2) by (intro find) simp
  moreover have "synopsis = [synopsis ! 0]" if "length synopsis = 1"
    using that by (cases synopsis) auto
  ultimately show ?thesis
    by (auto simp: last_known_block_def)
qed

section \<open>The numbers of a synopsis\<close>

text \<open>The block numbers that the loop visits, on natural numbers: from \<open>low\<close>, each step goes half
  of the remaining distance to \<open>th\<close> (plus one), until it passes \<open>high\<close>.\<close>

function synopsis_nums :: "nat \<Rightarrow> nat \<Rightarrow> nat \<Rightarrow> nat list" where
  "synopsis_nums high th low =
     low # (let low' = low + (th - low + 2) div 2
            in if low' \<le> high then synopsis_nums high th low' else [])"
  by pat_completeness auto
termination
  by (relation "measure (\<lambda>(high, th, low). Suc high - low)") auto

declare synopsis_nums.simps [simp del]

lemma synopsis_nums_Cons: "\<exists>ns. synopsis_nums high th low = low # ns"
  by (subst synopsis_nums.simps) (simp add: Let_def)

lemma hd_synopsis_nums [simp]: "hd (synopsis_nums high th low) = low"
  by (subst synopsis_nums.simps) (simp add: Let_def)

lemma synopsis_nums_nonempty [simp]: "synopsis_nums high th low \<noteq> []"
  using synopsis_nums_Cons [of high th low] by auto

lemma synopsis_nums_range:
  "low \<le> high \<Longrightarrow> \<forall>n \<in> set (synopsis_nums high th low). low \<le> n \<and> n \<le> high"
proof (induction high th low rule: synopsis_nums.induct)
  case (1 high th low)
  show ?case
  proof (cases "low + (th - low + 2) div 2 \<le> high")
    case True
    then have "\<forall>n \<in> set (synopsis_nums high th (low + (th - low + 2) div 2)). low \<le> n \<and> n \<le> high"
      using "1.IH" [OF refl True] by auto
    with True "1.prems" show ?thesis
      by (subst synopsis_nums.simps) (simp add: Let_def)
  next
    case False
    with "1.prems" show ?thesis
      by (subst synopsis_nums.simps) (simp add: Let_def)
  qed
qed

lemma synopsis_nums_sorted: "low \<le> high \<Longrightarrow> sorted_wrt (<) (synopsis_nums high th low)"
proof (induction high th low rule: synopsis_nums.induct)
  case (1 high th low)
  let ?low' = "low + (th - low + 2) div 2"
  show ?case
  proof (cases "?low' \<le> high")
    case True
    have "\<forall>n \<in> set (synopsis_nums high th ?low'). low < n"
      using synopsis_nums_range [OF True, of th] by auto
    with True "1.IH" [OF refl] show ?thesis
      by (subst synopsis_nums.simps) (simp add: Let_def)
  qed (subst synopsis_nums.simps, simp add: Let_def)
qed

lemma half_distance: "low \<le> th \<Longrightarrow> th - (low + (th - low + 2) div 2) + 1 = (th - low + 1) div 2 
    \<or> low + (th - low + 2) div 2 = th + 1" for low th :: nat
  by presburger

lemma synopsis_nums_length:
  "low \<le> high \<Longrightarrow> high \<le> th \<Longrightarrow> 2 ^ (length (synopsis_nums high th low) - 1) \<le> th - low + 1"
proof (induction high th low rule: synopsis_nums.induct)
  case (1 high th low)
  let ?low' = "low + (th - low + 2) div 2"
  show ?case
  proof (cases "?low' \<le> high")
    case True
    obtain ns where ns: "synopsis_nums high th ?low' = ?low' # ns"
      using synopsis_nums_Cons by blast
    have "2 ^ length ns \<le> th - ?low' + 1"
      using "1.IH" [OF refl True] True "1.prems" ns by simp
    moreover have "th - ?low' + 1 = (th - low + 1) div 2"
      using True "1.prems" half_distance [of low th] by linarith
    ultimately have "2 * 2 ^ length ns \<le> th - low + 1" by linarith
    with True ns show ?thesis by (subst synopsis_nums.simps) (simp add: Let_def)
  qed (subst synopsis_nums.simps, simp add: Let_def)
qed

lemma synopsis_nums_last:
  "low \<le> high \<Longrightarrow> th = high \<Longrightarrow> last (synopsis_nums high th low) = high"
proof (induction high th low rule: synopsis_nums.induct)
  case (1 high th low)
  let ?low' = "low + (th - low + 2) div 2"
  show ?case
  proof (cases "?low' \<le> high")
    case True
    with "1.IH" [OF refl] "1.prems" show ?thesis
      by (subst synopsis_nums.simps) (simp add: Let_def)
  next
    case False
    then have "low = high" using "1.prems" by presburger
    with False show ?thesis by (subst synopsis_nums.simps) (simp add: Let_def)
  qed
qed

text \<open>Said without the recursion: from \<open>lo\<close>, each number halves the distance that the one before leaves to
  \<open>th\<close>, and the last one is the last that does not pass \<open>hi\<close>.\<close>

definition halving :: "nat \<Rightarrow> nat \<Rightarrow> nat \<Rightarrow> nat list \<Rightarrow> bool" where
  "halving lo hi th ns \<longleftrightarrow> ns \<noteq> [] \<and> hd ns = lo \<and>
     successively (\<lambda>m n. n = m + (th - m + 2) div 2) ns \<and>
     last ns \<le> hi \<and> hi < last ns + (th - last ns + 2) div 2"

lemma synopsis_nums_halving: "low \<le> high \<Longrightarrow> halving low high th (synopsis_nums high th low)"
proof (induction high th low rule: synopsis_nums.induct)
  case (1 high th low)
  let ?low' = "low + (th - low + 2) div 2"
  show ?case
  proof (cases "?low' \<le> high")
    case True
    obtain ns where ns: "synopsis_nums high th ?low' = ?low' # ns"
      using synopsis_nums_Cons by blast
    have "halving ?low' high th (?low' # ns)" using "1.IH" [OF refl True True] ns by simp
    moreover have "synopsis_nums high th low = low # ?low' # ns"
      using True ns by (subst synopsis_nums.simps) (simp add: Let_def)
    ultimately show ?thesis by (simp add: halving_def)
  next
    case False
    then have "synopsis_nums high th low = [low]" by (subst synopsis_nums.simps) (simp add: Let_def)
    with False "1.prems" show ?thesis by (simp add: halving_def)
  qed
qed

section \<open>The loop computes these numbers\<close>

lemma synopsis_step:
  assumes "0 < low" "low \<le> th" "unat th < 2 ^ 32 - 1"
  shows "unat (low + (th - low + 2) div 2 :: u32) = unat low + (unat th - unat low + 2) div 2"
proof -
  have le: "unat low \<le> unat th" using assms by (simp add: word_le_nat_alt)
  have diff: "unat (th - low) = unat th - unat low"
    using assms by (simp add: unat_sub word_le_nat_alt)
  have pos: "0 < unat low" using assms by (simp add: unat_gt_0 word_gt_0)
  have "unat (th - low + 2) = unat th - unat low + 2"
    using assms(3) pos diff by (simp add: unat_word_ariths)
  then have "unat ((th - low + 2) div 2) = (unat th - unat low + 2) div 2"
    by (simp add: unat_div)
  moreover have "unat low + (unat th - unat low + 2) div 2 < 2 ^ 32"
    using assms(3) le by linarith
  ultimately show ?thesis by (simp add: unat_word_ariths)
qed

lemma synopsis_loop_eq:
  assumes "unat th < 2 ^ 32 - 1" "high \<le> th" "0 < low0"
    and block: "\<And>n. low0 \<le> n \<Longrightarrow> n \<le> high \<Longrightarrow> synopsis_block db fork nf n = Inr (blk (unat n))"
  shows "low0 \<le> low \<Longrightarrow> low \<le> high \<Longrightarrow>
    synopsis_loop db fork nf high th low syn =
      Some (Inr (syn @ map blk (synopsis_nums (unat high) (unat th) (unat low))))"
proof (induction "unat high - unat low" arbitrary: low syn rule: less_induct)
  case less
  let ?low' = "low + (th - low + 2) div 2"
  have pos: "0 < low" "low \<le> th"
    using less.prems assms(2,3) by (auto simp: word_less_nat_alt word_le_nat_alt)
  then have low': "unat ?low' = unat low + (unat th - unat low + 2) div 2"
    using assms(1) by (rule synopsis_step)
  show ?case
  proof (cases "?low' \<le> high")
    case True
    then have le: "unat low < unat ?low'" "unat ?low' \<le> unat high" "low0 \<le> ?low'"
      using low' less.prems(1) by (auto simp: word_le_nat_alt)
    then have "synopsis_loop db fork nf high th ?low' (syn @ [blk (unat low)]) =
        Some (Inr ((syn @ [blk (unat low)]) @
          map blk (synopsis_nums (unat high) (unat th) (unat ?low'))))"
      using True by (intro less.hyps) auto
    with True le low' less.prems show ?thesis
      by (subst synopsis_loop.simps, subst synopsis_nums.simps) (simp add: Let_def block)
  next
    case False
    then have "\<not> unat ?low' \<le> unat high" by (simp add: word_le_nat_alt)
    with False low' less.prems show ?thesis
      by (subst synopsis_loop.simps, subst synopsis_nums.simps) (simp add: Let_def block)
  qed
qed

section \<open>Summaries of the chain: properties\<close>

text \<open>A good summary of the blocks from \<open>lo\<close> to \<open>hi\<close>: not empty, at most 32 ids (one per halving of
  a 32-bit distance), in strictly ascending order, from \<open>lo\<close> on, never past \<open>hi\<close>; and it ends with
  \<open>hi\<close> when the peer appends no blocks of its own.\<close>

definition good_synopsis :: "('id, 'trx) chain_db \<Rightarrow> u32 \<Rightarrow> u32 \<Rightarrow> u32 \<Rightarrow> 'id list \<Rightarrow> bool" where
  "good_synopsis db lo hi after syn \<longleftrightarrow>
     syn \<noteq> [] \<and> length syn \<le> 32 \<and> sorted_wrt (<) (map (num_from_id db) syn) \<and>
     num_from_id db (hd syn) = lo \<and> list_all (\<lambda>i. num_from_id db i \<le> hi) syn \<and>
     (if after = 0 then num_from_id db (last syn) = hi else True)"

lemma synopsis_loop_good:
  assumes "0 < lo" "lo \<le> hi" "unat hi + unat after < 2 ^ 32 - 1"
    and block: "\<And>n. lo \<le> n \<Longrightarrow> n \<le> hi \<Longrightarrow> synopsis_block db fork nf n = Inr (blk (unat n))"
    and num: "\<And>n. lo \<le> n \<Longrightarrow> n \<le> hi \<Longrightarrow> num_from_id db (blk (unat n)) = n"
  shows "\<exists>ns. synopsis_loop db fork nf hi (hi + after) lo [] = Some (Inr (map blk ns)) \<and>
    good_synopsis db lo hi after (map blk ns) \<and> ns \<noteq> [] \<and> (after = 0 \<longrightarrow> last ns = unat hi) \<and>
    (\<forall>n \<in> set ns. unat lo \<le> n \<and> n \<le> unat hi) \<and> halving (unat lo) (unat hi) (unat hi + unat after) ns"
proof -
  have th: "unat (hi + after) = unat hi + unat after"
    using assms(3) by (simp add: unat_word_ariths)
  have hi_th: "hi \<le> hi + after" by (simp add: word_le_nat_alt th)
  let ?ns = "synopsis_nums (unat hi) (unat hi + unat after) (unat lo)"
  have le: "unat lo \<le> unat hi" using assms(2) by (simp add: word_le_nat_alt)
  have loop: "synopsis_loop db fork nf hi (hi + after) lo [] = Some (Inr (map blk ?ns))"
    using synopsis_loop_eq [where low = lo and ?low0.0 = lo and syn = "[]", OF _ hi_th assms(1) block]
      assms(2,3) by (simp add: th)
  have range: "\<forall>n \<in> set ?ns. unat lo \<le> n \<and> n \<le> unat hi"
    using le by (rule synopsis_nums_range)
  have inv: "unat (num_from_id db (blk n)) = n \<and> num_from_id db (blk n) \<le> hi" if "n \<in> set ?ns" for n
  proof -
    have n: "unat (of_nat n :: u32) = n"
      using range that assms(3) by (intro unat_of_nat_u32) auto
    then have "num_from_id db (blk n) = of_nat n"
      using range that num [of "of_nat n"] by (simp add: word_le_nat_alt)
    with n range that show ?thesis by (simp add: word_le_nat_alt)
  qed
  have "2 ^ (length ?ns - 1) \<le> unat hi + unat after - unat lo + 1"
    using le by (intro synopsis_nums_length) auto
  also have "\<dots> < 2 ^ 32" using assms(3) by simp
  finally have "(2::nat) ^ (length ?ns - 1) < 2 ^ 32" .
  then have "length ?ns - 1 < 32" by (rule power_less_imp_less_exp [rotated]) simp
  then have len: "length ?ns \<le> 32" by simp
  have "sorted_wrt (\<lambda>m n. num_from_id db (blk m) < num_from_id db (blk n)) ?ns"
    using synopsis_nums_sorted [OF le, of "unat hi + unat after"] inv
    by (elim sorted_wrt_mono_rel [rotated]) (simp add: word_less_nat_alt)
  then have sorted: "sorted_wrt (<) (map (num_from_id db) (map blk ?ns))"
    by (simp add: sorted_wrt_map)
  have "good_synopsis db lo hi after (map blk ?ns)"
    unfolding good_synopsis_def
  proof (intro conjI)
    show "num_from_id db (hd (map blk ?ns)) = lo"
      using num [of lo] assms(2) by (simp add: hd_map)
    show "list_all (\<lambda>i. num_from_id db i \<le> hi) (map blk ?ns)"
      using inv by (simp add: list_all_iff)
    show "if after = 0 then num_from_id db (last (map blk ?ns)) = hi else True"
      using num [of hi] assms(2) le by (simp add: last_map synopsis_nums_last)
  qed (use len sorted in simp_all)
  moreover have "after = 0 \<longrightarrow> last ?ns = unat hi"
    using le by (simp add: synopsis_nums_last)
  ultimately show ?thesis using loop synopsis_nums_nonempty range synopsis_nums_halving [OF le] by blast
qed

lemma synopsis_block_main:
  "main_chain_ok db \<Longrightarrow> 0 < n \<Longrightarrow> n \<le> nf \<Longrightarrow> n \<le> head_block_num db \<Longrightarrow>
   synopsis_block db fork nf n = Inr (main_id db (unat n))"
  by (simp add: synopsis_block_def main_chain_block)

text \<open>
  With no reference point, a chain that is not empty and no overflow in the number of blocks,
  \<open>get_blockchain_synopsis\<close> returns, and its result is a good summary of the main chain from the
  last block that cannot be undone (block 1 if there is none) to the head, made of main-chain ids.
\<close>

lemma get_blockchain_synopsis_whole_chain:
  assumes "main_chain_ok db" and "head_block_num db \<noteq> 0"
    and "last_non_undoable_block_num db \<le> head_block_num db"
    and "unat (head_block_num db) + unat after < 2 ^ 32 - 1"
  shows "\<exists>ns. get_blockchain_synopsis ndebug db (zero_id db) after =
      Some (Inr (map (main_id db) ns)) \<and>
    good_synopsis db (max 1 (last_non_undoable_block_num db)) (head_block_num db) after
      (map (main_id db) ns) \<and> ns \<noteq> [] \<and> (after = 0 \<longrightarrow> last ns = unat (head_block_num db)) \<and>
    (\<forall>n \<in> set ns. unat (max 1 (last_non_undoable_block_num db)) \<le> n \<and> n \<le> unat (head_block_num db))"
proof -
  let ?lo = "if last_non_undoable_block_num db = 0 then 1 else last_non_undoable_block_num db"
  have lo: "?lo = max 1 (last_non_undoable_block_num db)" "0 < ?lo" "?lo \<le> head_block_num db"
    using assms(2,3) by (auto simp: max_def word_le_nat_alt word_less_nat_alt Suc_le_eq unat_gt_0)
  have blk: "synopsis_block db [] (head_block_num db) n = Inr (main_id db (unat n))"
    and num: "num_from_id db (main_id db (unat n)) = n" if "?lo \<le> n" "n \<le> head_block_num db" for n
  proof -
    have "0 < n" using lo(2) that(1) by (rule less_le_trans)
    with assms(1) that(2) show "synopsis_block db [] (head_block_num db) n = Inr (main_id db (unat n))"
      and "num_from_id db (main_id db (unat n)) = n"
      by (simp_all add: synopsis_block_main main_chain_block)
  qed
  have "get_blockchain_synopsis ndebug db (zero_id db) after =
      synopsis_loop db [] (head_block_num db) (head_block_num db) (head_block_num db + after) ?lo []"
    using assms(2) by (simp add: get_blockchain_synopsis_def synopsis_setup_def)
  with synopsis_loop_good [OF lo(2,3) assms(4) blk num] lo(1) show ?thesis by auto
qed

lemma not_zero_pos: "(if (low :: u32) = 0 then 1 else low) = max 1 low" "0 < max 1 (low :: u32)"
  by (auto simp: max_def word_le_nat_alt word_less_nat_alt Suc_le_eq unat_gt_0)

lemma max_1_le: "low \<le> hi \<Longrightarrow> 0 < hi \<Longrightarrow> max 1 low \<le> (hi :: u32)"
  by (rule max.boundedI) (simp_all add: word_le_nat_alt word_less_nat_alt Suc_le_eq)

text \<open>
  C1. With a reference point on our main chain, \<open>get_blockchain_synopsis\<close> returns a good summary
  from the last block that cannot be undone, or from the reference point when that is older, to the
  reference point. It consists of main-chain ids, at the numbers that halve the distance to the end
  again and again; without blocks to append it ends with the reference point itself.
\<close>

theorem get_blockchain_synopsis_main_chain:
  assumes "main_chain_ok db" and "reference_point \<noteq> zero_id db"
    and "0 < num_from_id db reference_point" "num_from_id db reference_point \<le> head_block_num db"
    and "main_id db (unat (num_from_id db reference_point)) = reference_point"
    and "unat (num_from_id db reference_point) + unat after < 2 ^ 32 - 1"
  defines "lo \<equiv> max 1 (min (num_from_id db reference_point) (last_non_undoable_block_num db))"
    and "hi \<equiv> num_from_id db reference_point"
  shows "\<exists>ns. get_blockchain_synopsis ndebug db reference_point after = Some (Inr (map (main_id db) ns)) \<and>
    halving (unat lo) (unat hi) (unat hi + unat after) ns \<and> good_synopsis db lo hi after (map (main_id db) ns) \<and>
    (after = 0 \<longrightarrow> last (map (main_id db) ns) = reference_point)"
proof -
  let ?n = "num_from_id db reference_point"
  let ?lo = "max 1 (min ?n (last_non_undoable_block_num db))"
  have lo: "0 < ?lo" "?lo \<le> ?n"
    using assms(3) by (simp_all only: not_zero_pos max_1_le min.cobounded1)
  have blk: "synopsis_block db [] ?n n = Inr (main_id db (unat n))"
    and num: "num_from_id db (main_id db (unat n)) = n" if "?lo \<le> n" "n \<le> ?n" for n
    using assms(1,4) that order.strict_trans2 [OF lo(1) that(1)]
    by (simp_all add: synopsis_block_main main_chain_block)
  have "synopsis_setup ndebug db reference_point =
      Inr (SynopsisRange (min ?n (last_non_undoable_block_num db)) ?n ?n [])"
    using assms(1-5)
    by (auto simp: synopsis_setup_def blockIsInOurChain_def main_chain_block c_assert_def min_def Let_def)
  then have "get_blockchain_synopsis ndebug db reference_point after =
      synopsis_loop db [] ?n ?n (?n + after) ?lo []"
    by (simp add: get_blockchain_synopsis_def not_zero_pos)
  moreover obtain ns where "synopsis_loop db [] ?n ?n (?n + after) ?lo [] = Some (Inr (map (main_id db) ns))"
    "good_synopsis db ?lo ?n after (map (main_id db) ns)" "ns \<noteq> []" "after = 0 \<longrightarrow> last ns = unat ?n"
    "halving (unat ?lo) (unat ?n) (unat ?n + unat after) ns"
    using synopsis_loop_good [OF lo assms(6) blk num] by auto
  ultimately show ?thesis using assms(5) unfolding lo_def hi_def by (auto simp: last_map)
qed

theorem get_blockchain_synopsis_main_chain_witness:
  "\<exists>ns. get_blockchain_synopsis False sample_db (4, 0) 0 = Some (Inr (map (main_id sample_db) ns)) \<and>
    halving 2 4 4 ns \<and> good_synopsis sample_db 2 4 0 (map (main_id sample_db) ns)"
  using get_blockchain_synopsis_main_chain [OF sample_db_ok, of "(4, 0)" 0 False]
  by (auto simp: sample_db_def main_id_def)

text \<open>The documented answer of \<open>get_block_ids_on_fork\<close>: the ids from the reference point back to
  the last block shared with the main chain, with consecutive numbers.\<close>

definition fork_ok :: "('id, 'trx) chain_db \<Rightarrow> 'id \<Rightarrow> 'id \<Rightarrow> 'id list \<Rightarrow> bool" where
  "fork_ok db reference_point base fork \<longleftrightarrow>
     get_block_ids_on_fork db reference_point = Inr (rev fork @ [base]) \<and>
     fork \<noteq> [] \<and> last fork = reference_point \<and> num_from_id db base \<le> head_block_num db \<and>
     unat (num_from_id db base) + length fork < 2 ^ 32 \<and>
     (\<forall>k < length fork. num_from_id db (fork ! k) = num_from_id db base + 1 + of_nat k)"

lemma fork_num_last:
  "fork_ok db ref base fork \<Longrightarrow>
   num_from_id db ref = num_from_id db base + of_nat (length fork)"
  by (cases fork rule: rev_cases) (auto simp: fork_ok_def nth_append)

lemma synopsis_on_fork_eq:
  assumes "main_chain_ok db" "fork_ok db ref base fork"
  shows "synopsis_on_fork ndebug db ref low =
    (if num_from_id db base < low then Inl BlockOlderThanUndoHistory
     else Inr (SynopsisRange low (num_from_id db base) (num_from_id db ref) fork))"
proof -
  have "hd (rev fork @ [base]) = ref" "last fork = ref" "2 \<le> length (rev fork @ [base])"
    using assms(2) by (auto simp: fork_ok_def hd_append hd_rev Suc_le_eq)
  then show ?thesis
    using assms fork_num_last [OF assms(2)]
    by (auto simp: synopsis_on_fork_def fork_ok_def c_assert_def Let_def main_chain_ok_def)
qed

lemma fork_block:
  assumes "main_chain_ok db" "fork_ok db ref base fork" "0 < n" "n \<le> num_from_id db ref"
  defines "blk m \<equiv> if m \<le> unat (num_from_id db base) then main_id db m
             else fork ! (m - unat (num_from_id db base) - 1)"
  shows "synopsis_block db fork (num_from_id db base) n = Inr (blk (unat n))"
    and "num_from_id db (blk (unat n)) = n"
proof -
  let ?b = "num_from_id db base"
  have b: "?b \<le> head_block_num db" using assms(2) by (simp add: fork_ok_def)
  have ref: "unat (num_from_id db ref) = unat ?b + length fork"
    using assms(2) fork_num_last [OF assms(2)] by (simp add: fork_ok_def unat_word_ariths unat_of_nat)
  consider "n \<le> ?b" | (above) "?b < n" by fastforce
  then have "synopsis_block db fork ?b n = Inr (blk (unat n)) \<and> num_from_id db (blk (unat n)) = n"
  proof cases
    case 1
    then have "n \<le> head_block_num db" using b by (rule order_trans)
    with 1 assms(1,3) show ?thesis
      by (simp add: synopsis_block_main main_chain_block blk_def word_le_nat_alt)
  next
    case above
    let ?k = "unat n - unat ?b - 1"
    have lt: "unat ?b < unat n" using above by (simp add: word_less_nat_alt)
    have k: "?k < length fork" using lt assms(4) ref by (simp add: word_le_nat_alt)
    have diff: "unat (n - ?b) = unat n - unat ?b"
      using lt by (simp add: unat_sub word_le_nat_alt)
    then have "unat (n - ?b - 1) = ?k"
      using lt by (subst unat_minus_one_pos) (auto simp flip: unat_gt_0)
    moreover have "?b + 1 + of_nat ?k = n"
    proof -
      have "?b + 1 + of_nat ?k = of_nat (unat ?b + 1 + ?k)" by simp
      also have "unat ?b + 1 + ?k = unat n" using lt by simp
      finally show ?thesis by simp
    qed
    moreover have "\<not> n \<le> ?b" using above by simp
    ultimately show ?thesis
      using lt k assms(2)
      by (simp add: synopsis_block_def blk_def Let_def fork_ok_def)
  qed
  then show "synopsis_block db fork ?b n = Inr (blk (unat n))" and "num_from_id db (blk (unat n)) = n"
    by simp_all
qed

text \<open>The blocks of the fork's own chain by number: main-chain blocks up to the base, then the fork's.\<close>

definition fork_chain_id :: "('id, 'trx) chain_db \<Rightarrow> 'id \<Rightarrow> 'id list \<Rightarrow> nat \<Rightarrow> 'id" where
  "fork_chain_id db base fork n =
     (if n \<le> unat (num_from_id db base) then main_id db n else fork ! (n - unat (num_from_id db base) - 1))"

text \<open>
  C2. With a reference point on a fork, \<open>get_blockchain_synopsis\<close> refuses a fork that leaves the
  main chain before the last block that cannot be undone, and otherwise returns a good summary at the
  numbers that halve the distance to the end: its ids up to the number of the fork's base are those of
  the main chain, the ids above are the blocks of the fork with these numbers, and it ends with the
  reference point when there are no blocks to append. It never indexes the fork's blocks out of range.
\<close>

theorem get_blockchain_synopsis_fork:
  assumes "main_chain_ok db" and "fork_ok db reference_point base fork"
    and "reference_point \<noteq> zero_id db" and "blockIsInOurChain db reference_point = Inr False"
    and "unat (num_from_id db reference_point) + unat after < 2 ^ 32 - 1"
  shows "if num_from_id db base < last_non_undoable_block_num db
    then get_blockchain_synopsis ndebug db reference_point after = Some (Inl BlockOlderThanUndoHistory)
    else \<exists>ns. get_blockchain_synopsis ndebug db reference_point after =
        Some (Inr (map (fork_chain_id db base fork) ns)) \<and>
      halving (unat (max 1 (last_non_undoable_block_num db))) (unat (num_from_id db reference_point))
        (unat (num_from_id db reference_point) + unat after) ns \<and>
      good_synopsis db (max 1 (last_non_undoable_block_num db))
        (num_from_id db reference_point) after (map (fork_chain_id db base fork) ns) \<and>
      (after = 0 \<longrightarrow> last (map (fork_chain_id db base fork) ns) = reference_point)"
proof -
  let ?low = "last_non_undoable_block_num db" and ?b = "num_from_id db base"
    and ?n = "num_from_id db reference_point"
  have range: "synopsis_setup ndebug db reference_point =
      (if ?b < ?low then Inl BlockOlderThanUndoHistory else Inr (SynopsisRange ?low ?b ?n fork))"
    using assms(1-4) by (simp add: synopsis_setup_def synopsis_on_fork_eq)
  have n: "unat ?n = unat ?b + length fork"
    using assms(2) fork_num_last [OF assms(2)] by (simp add: fork_ok_def unat_word_ariths unat_of_nat)
  moreover have "fork \<noteq> []" "last fork = reference_point" using assms(2) by (simp_all add: fork_ok_def)
  ultimately have b_n: "?b < ?n" by (simp add: word_less_nat_alt)
  show ?thesis
  proof (cases "?b < ?low")
    case True
    with range show ?thesis by (simp add: get_blockchain_synopsis_def)
  next
    case False
    then have "?low \<le> ?n" "0 < ?n" using b_n by (auto simp: word_le_nat_alt word_less_nat_alt)
    then have lo: "0 < max 1 ?low" "max 1 ?low \<le> ?n" by (simp_all only: not_zero_pos max_1_le)
    let ?blk = "fork_chain_id db base fork"
    have blk: "synopsis_block db fork ?b m = Inr (?blk (unat m))"
      and num: "num_from_id db (?blk (unat m)) = m" if "max 1 ?low \<le> m" "m \<le> ?n" for m
      using fork_block [OF assms(1,2) order.strict_trans2 [OF lo(1) that(1)] that(2)]
      by (simp_all add: fork_chain_id_def)
    obtain ns where ns: "synopsis_loop db fork ?b ?n (?n + after) (max 1 ?low) [] = Some (Inr (map ?blk ns))"
      "good_synopsis db (max 1 ?low) ?n after (map ?blk ns)" "ns \<noteq> []" "after = 0 \<longrightarrow> last ns = unat ?n"
      "halving (unat (max 1 ?low)) (unat ?n) (unat ?n + unat after) ns"
      using synopsis_loop_good [OF lo assms(5) blk num] by auto
    have "?blk (unat ?n) = reference_point"
      using n \<open>fork \<noteq> []\<close> \<open>last fork = reference_point\<close> by (simp add: fork_chain_id_def last_conv_nth)
    with range False ns show ?thesis
      by (auto simp: get_blockchain_synopsis_def not_zero_pos last_map)
  qed
qed

theorem get_blockchain_synopsis_fork_witness:
  "\<exists>ns. get_blockchain_synopsis True sample_db (5, 1) 0 =
      Some (Inr (map (fork_chain_id sample_db (3, 0) [(4, 1), (5, 1)]) ns)) \<and>
    halving 2 5 5 ns \<and> last (map (fork_chain_id sample_db (3, 0) [(4, 1), (5, 1)]) ns) = (5, 1)"
proof -
  have "fork_ok sample_db (5, 1) (3, 0) [(4, 1), (5, 1)]"
    by (auto simp: fork_ok_def sample_db_def less_Suc_eq)
  from get_blockchain_synopsis_fork [OF sample_db_ok this, of 0 True]
  show ?thesis by (auto simp: sample_db_def blockIsInOurChain_def)
qed

lemma synopsis_loop_stuck:
  assumes "synopsis_block db fork nf low = Inr i" "low \<le> hi" "th = low - 1 \<or> th = low - 2"
  shows "synopsis_loop db fork nf hi th low syn = None"
proof -
  have zero_step: "(low :: u32) + (th - low + 2) div 2 = low" if "th = low - 1 \<or> th = low - 2" for low th
    using that by auto
  have "\<not> ((th = low' - 1 \<or> th = low' - 2) \<and> low' \<le> hi' \<and> synopsis_block db' fork' nf' low' = Inr i)"
    if "synopsis_loop db' fork' nf' hi' th low' syn' = Some r"
    for db' :: "('a, 'b) chain_db" and fork' nf' hi' th low' syn' r
  proof (rule synopsis_loop.raw_induct [where P = "\<lambda>db' fork' nf' hi' th low' syn' r.
      \<not> ((th = low' - 1 \<or> th = low' - 2) \<and> low' \<le> hi' \<and> synopsis_block db' fork' nf' low' = Inr i)", OF _ that],
      goal_cases)
    case (1 rec db' fork' nf' hi' th low' syn' r)
    show ?case
    proof
      assume *: "(th = low' - 1 \<or> th = low' - 2) \<and> low' \<le> hi' \<and> synopsis_block db' fork' nf' low' = Inr i"
      then have "low' + (th - low' + 2) div 2 = low'" using zero_step by blast
      with * have "rec db' fork' nf' hi' th low' (syn' @ [i]) = Some r" using 1(2) by (simp add: Let_def)
      from 1(1) [OF this] * show False by simp
    qed
  qed
  then show ?thesis using assms by (metis option.exhaust)
qed

text \<open>
  C26. The loop does not end on every input: without a reference point, when the sum of the head number
  and \<open>number_of_blocks_after_reference_point\<close>, taken modulo \<open>2 ^ 32\<close>, is one or two below the low block
  number, the first step is zero and \<open>get_blockchain_synopsis\<close> never returns (it pushes the same id until
  memory runs out).
\<close>

theorem get_blockchain_synopsis_overflow_diverges:
  assumes "main_chain_ok db" and "head_block_num db \<noteq> 0"
    and "0 < last_non_undoable_block_num db" "last_non_undoable_block_num db \<le> head_block_num db"
    and "head_block_num db + after = last_non_undoable_block_num db - 1 \<or>
      head_block_num db + after = last_non_undoable_block_num db - 2"
  shows "get_blockchain_synopsis ndebug db (zero_id db) after = None"
  using assms synopsis_loop_stuck
    [OF synopsis_block_main [OF assms(1,3,4,4), where fork = "[]"] assms(4,5)]
  by (auto simp: get_blockchain_synopsis_def synopsis_setup_def word_gt_0)

theorem get_blockchain_synopsis_overflow_diverges_witness:
  "get_blockchain_synopsis True sample_db (0, 0) (- 4) = None \<and>
   get_blockchain_synopsis True sample_db (0, 0) (- 5) = None"
  using get_blockchain_synopsis_overflow_diverges [OF sample_db_ok, of "- 4" True]
    get_blockchain_synopsis_overflow_diverges [OF sample_db_ok, of "- 5" True]
  by (simp add: sample_db_def)

section \<open>The sync state machine\<close>

text \<open>A run of \<open>handle_block\<close> calls, as the network node makes them: block and \<open>sync_mode\<close>. The run
  stops at a call that throws.\<close>

fun handle_blocks ::
  "('id, 'trx, 'w) p2p_peers \<Rightarrow> (('id, 'trx) signed_block \<times> bool) list \<Rightarrow> 'w p2p_state \<Rightarrow>
   'w p2p_state \<times> unit res" where
  "handle_blocks p [] s = (s, Inr ())"
| "handle_blocks p ((b, sync_mode) # bs) s =
     (let (s1, ids, r) = handle_block p b sync_mode [] s in
      case r of Inl e \<Rightarrow> (s1, Inl e) | Inr _ \<Rightarrow> handle_blocks p bs s1)"

text \<open>Slots that return normally: each is then just a change of the world.\<close>

definition slots_return ::
  "('id, 'trx, 'w) p2p_peers \<Rightarrow> (('id, 'trx) signed_block \<Rightarrow> 'w \<Rightarrow> 'w) \<Rightarrow> ('w \<Rightarrow> 'w) \<Rightarrow> bool" where
  "slots_return p on_block on_finished \<longleftrightarrow>
     (\<forall>b w. blockReceived p b w = (on_block b w, Inr ())) \<and>
     (\<forall>w. syncFinished p w = (on_finished w, Inr ()))"

lemma handle_block_slots_return:
  "slots_return p ob fin \<Longrightarrow> handle_block p b sync_mode ids s =
     (let w = ob b (world s) in
      if \<not> sync_mode \<and> syncing s
      then (s\<lparr>world := fin w, syncing := False\<rparr>, map (trx_message_id p) (transactions b), Inr False)
      else (s\<lparr>world := w\<rparr>, map (trx_message_id p) (transactions b), Inr False))"
  by (simp add: handle_block_def slots_return_def run_effect_def Let_def)

lemma handle_blocks_not_syncing:
  "slots_return p ob fin \<Longrightarrow> \<not> syncing s \<Longrightarrow>
   handle_blocks p bs s = (s\<lparr>world := fold (\<lambda>(b, _). ob b) bs (world s)\<rparr>, Inr ())"
  by (induction bs arbitrary: s) (auto simp: handle_block_slots_return Let_def)

lemma handle_blocks_sync_mode:
  "slots_return p ob fin \<Longrightarrow> list_all snd bs \<Longrightarrow>
   handle_blocks p bs s = (s\<lparr>world := fold (\<lambda>(b, _). ob b) bs (world s)\<rparr>, Inr ())"
  by (induction bs arbitrary: s) (auto simp: handle_block_slots_return Let_def)

lemma handle_blocks_append:
  "handle_blocks p (xs @ ys) s =
     (let (s1, r) = handle_blocks p xs s in case r of Inl e \<Rightarrow> (s1, Inl e) | Inr _ \<Rightarrow> handle_blocks p ys s1)"
  by (induction xs arbitrary: s) (auto simp: Let_def split: prod.split sum.split)

text \<open>
  C23. After \<open>syncFrom\<close>, every block goes to the block slots, and \<open>syncFinished\<close> fires exactly
  once: right after the first block that arrives outside sync mode.
\<close>

theorem sync_finishes_once:
  assumes "slots_return p on_block on_finished" and "node_sync_from p (block_message_type db) start w = (w0, Inr ())"
    and "list_all snd before"
  shows "syncFrom p db start \<lparr>syncing = already, world = w\<rparr> = (\<lparr>syncing = True, world = w0\<rparr>, Inr ()) \<and>
    handle_blocks p (before @ (b, False) # rest) \<lparr>syncing = True, world = w0\<rparr> =
      (\<lparr>syncing = False,
        world = fold (\<lambda>(b, _). on_block b) rest
          (on_finished (on_block b (fold (\<lambda>(b, _). on_block b) before w0)))\<rparr>, Inr ())"
  using assms
  by (simp_all add: syncFrom_def run_effect_def handle_blocks_append handle_blocks_sync_mode
      handle_block_slots_return handle_blocks_not_syncing Let_def)

definition sample_peers :: "(u32 \<times> nat, nat, string list) p2p_peers" where
  "sample_peers = \<lparr>blockReceived = (\<lambda>b w. (w @ [''block''], Inr ())),
     transactionReceived = (\<lambda>t w. (w, Inr ())),
     syncFinished = (\<lambda>w. (w @ [''finished''], Inr ())),
     node_sync_from = (\<lambda>ty i w. (w @ [''sync''], Inr ())),
     node_listen = (\<lambda>w. (w, Inr ())), node_connect = (\<lambda>w. (w, Inr ())),
     trx_message_id = (\<lambda>t. (of_nat t, 9))\<rparr>"

theorem sync_finishes_once_witness:
  "handle_blocks sample_peers ([(\<lparr>previous = (0, 0), block_id = (1, 0), timestamp = 0, transactions = []\<rparr>, True)] @
     (\<lparr>previous = (1, 0), block_id = (2, 0), timestamp = 3, transactions = [7]\<rparr>, False) # [])
     \<lparr>syncing = True, world = [''sync'']\<rparr> =
   (\<lparr>syncing = False, world = [''sync'', ''block'', ''block'', ''finished'']\<rparr>, Inr ())"
proof -
  have slots: "slots_return sample_peers (\<lambda>b w. w @ [''block'']) (\<lambda>w. w @ [''finished''])"
    by (simp add: slots_return_def sample_peers_def)
  have sync: "node_sync_from sample_peers (block_message_type sample_db) (0, 0) [] = ([''sync''], Inr ())"
    by (simp add: sample_peers_def)
  show ?thesis
    using conjunct2 [OF sync_finishes_once [OF slots sync,
          of "[(\<lparr>previous = (0, 0), block_id = (1, 0), timestamp = 0, transactions = []\<rparr>, True)]" True
             "\<lparr>previous = (1, 0), block_id = (2, 0), timestamp = 3, transactions = [7]\<rparr>" "[]"]]
    by simp
qed

end
