(* ===== verification/Contract_Node.thy ===== *)
theory Contract_Node
  imports Database_Dump P2p_Handler
begin

text \<open>
  The contract node itself, from \<open>Modules/ContractNode.cpp\<close>: startup in \<open>run\<close>, the slot that receives
  blocks from the P2P handler, and the signals that end the program or queue work, such as the dump of
  \<open>Database_Dump\<close>. The P2P handler's world is the node of \<open>Plugin_Loader\<close>, so that a block coming from the
  network runs through the node's slot into the chain handler's database.
\<close>

section \<open>Blocks\<close>

text \<open>What the node uses of the chain database besides its tables: its head block, adding a block, and
  the view of it that the P2P handler reads.\<close>

record ('c, 'id, 'trx) block_ops =
  head_id :: "'c \<Rightarrow> 'id"
  push_block :: "('id, 'trx) signed_block \<Rightarrow> 'c \<Rightarrow> 'c \<times> unit res"
  as_chain_db :: "'c \<Rightarrow> ('id, 'trx) chain_db"

text \<open>The slot that \<open>run\<close> connects to \<open>blockReceived\<close>. Its \<open>try\<close> body pushes the block and checks that
  this made it the head, since a push may return without doing so.\<close>

definition push_next ::
  "('c, 'id, 'trx) block_ops \<Rightarrow> ('id, 'trx) signed_block \<Rightarrow> 'c \<Rightarrow> 'c \<times> unit res" where
  "push_next B block c =
     (let (c', pushed) = push_block B block c
      in (c', rbind pushed (\<lambda>_. if head_id B c' = block_id block then Inr ()
                else Inl (FcAssert ''Block pushed OK, but did not update chain''))))"

definition receive_block ::
  "('c, 'id, 'trx) block_ops \<Rightarrow> ('id, 'trx) signed_block \<Rightarrow> ('c, 'p, 'o, 'lib, 'w) node \<Rightarrow>
   ('c, 'p, 'o, 'lib, 'w) node \<times> unit res" where
  "receive_block B block n =
     (case chainHandler n of
        None \<Rightarrow> (n, Inl (UB ''null chainHandler''))
      | Some h \<Rightarrow>
          if previous block = head_id B (getChain h) then
            (let (c, r) = push_next B block (getChain h)
             in (n\<lparr>chainHandler := Some (h\<lparr>chain := c\<rparr>)\<rparr>,
                 case r of Inl e \<Rightarrow> if is_fc_exception e then Inr () else Inl e | Inr _ \<Rightarrow> Inr ()))
          else (n, Inr ()))"

text \<open>The P2P handler of the node: its three signals carry the node's slots, its network is \<open>net\<close>.\<close>

definition node_peers ::
  "('c, 'id, 'trx) block_ops \<Rightarrow> ('id, 'trx, ('c, 'p, 'o, 'lib, 'w) node) p2p_peers \<Rightarrow>
   ('id, 'trx, ('c, 'p, 'o, 'lib, 'w) node) p2p_peers" where
  "node_peers B net = net\<lparr>blockReceived := receive_block B,
     transactionReceived := (\<lambda>trx n. (n, Inr ())), syncFinished := (\<lambda>n. (n, Inr ()))\<rparr>"

text \<open>What is relied on in \<open>push_block\<close>, for a block that follows the head: a return makes the block the
  head or leaves the head alone, an exception is one of fc's and leaves the head alone.\<close>

definition push_ok :: "('c, 'id, 'trx) block_ops \<Rightarrow> bool" where
  "push_ok B \<longleftrightarrow> (\<forall>b c. previous b = head_id B c \<longrightarrow> (case push_block B b c of
      (c', Inr _) \<Rightarrow> head_id B c' = block_id b \<or> head_id B c' = head_id B c
    | (c', Inl e) \<Rightarrow> head_id B c' = head_id B c \<and> is_fc_exception e))"

definition node_head :: "('c, 'id, 'trx) block_ops \<Rightarrow> ('c, 'p, 'o, 'lib, 'w) node \<Rightarrow> 'id" where
  "node_head B n = head_id B (chain (the (chainHandler n)))"

text \<open>The blocks that a run of the slot adds: those that follow the head and whose push ends normally.\<close>

fun blocks_added ::
  "('c, 'id, 'trx) block_ops \<Rightarrow> ('id, 'trx) signed_block list \<Rightarrow> ('c, 'p, 'o, 'lib, 'w) node \<Rightarrow>
   ('id, 'trx) signed_block list" where
  "blocks_added B [] n = []"
| "blocks_added B (b # bs) n =
     (if previous b = node_head B n \<and> snd (push_next B b (chain (the (chainHandler n)))) = Inr ()
      then [b] else []) @ blocks_added B bs (fst (receive_block B b n))"

text \<open>A list of blocks that extends the head \<open>i\<close> to the head \<open>j\<close>, each block on the one before.\<close>

fun links :: "'id \<Rightarrow> ('id, 'trx) signed_block list \<Rightarrow> 'id \<Rightarrow> bool" where
  "links i [] j \<longleftrightarrow> i = j"
| "links i (b # bs) j \<longleftrightarrow> previous b = i \<and> links (block_id b) bs j"

lemma links_append: "links i (xs @ ys) j \<longleftrightarrow> (\<exists>k. links i xs k \<and> links k ys j)"
  by (induction xs arbitrary: i) auto

lemma push_next_ok:
  assumes "push_ok B" "previous b = head_id B c" "push_next B b c = (c', r)"
  shows "case r of Inr _ \<Rightarrow> head_id B c' = block_id b | Inl e \<Rightarrow> head_id B c' = head_id B c \<and> is_fc_exception e"
proof -
  obtain d pushed where push: "push_block B b c = (d, pushed)" by fastforce
  have "case pushed of Inr _ \<Rightarrow> head_id B d = block_id b \<or> head_id B d = head_id B c
      | Inl e \<Rightarrow> head_id B d = head_id B c \<and> is_fc_exception e"
    using assms(1) [unfolded push_ok_def, rule_format, OF assms(2)] push by simp
  with push assms(3) show ?thesis
    by (cases pushed) (auto simp: push_next_def split: if_splits)
qed

lemma receive_block_ok:
  assumes "push_ok B" "chainHandler n = Some h"
  shows "\<exists>c. receive_block B b n = (n\<lparr>chainHandler := Some (h\<lparr>chain := c\<rparr>)\<rparr>, Inr ()) \<and>
    head_id B c = (if previous b = node_head B n \<and> snd (push_next B b (chain h)) = Inr ()
                   then block_id b else node_head B n)"
proof (cases "previous b = head_id B (chain h)")
  case False
  then have "receive_block B b n = (n\<lparr>chainHandler := Some (h\<lparr>chain := chain h\<rparr>)\<rparr>, Inr ())"
    using assms(2) by (simp add: receive_block_def getChain_def)
  moreover have "head_id B (chain h) = node_head B n" using assms(2) by (simp add: node_head_def)
  ultimately show ?thesis using False by (intro exI [of _ "chain h"]) simp
next
  case True
  obtain c r where push: "push_next B b (chain h) = (c, r)" by fastforce
  from push_next_ok [OF assms(1) True push] push True assms(2) show ?thesis
    by (cases r) (auto simp: receive_block_def getChain_def node_head_def)
qed

lemma node_peers_slots:
  assumes "push_ok B"
  shows "chainHandler (world s) \<noteq> None \<Longrightarrow>
    \<exists>h s'. handle_blocks (node_peers B net) bs s = (s', Inr ()) \<and>
      chainHandler (world s') = Some h \<and>
      links (node_head B (world s)) (blocks_added B (map fst bs) (world s)) (node_head B (world s')) \<and>
      world s' = (world s)\<lparr>chainHandler := Some h\<rparr> \<and>
      (\<forall>h0. chainHandler (world s) = Some h0 \<longrightarrow> h = h0\<lparr>chain := chain h\<rparr>)"
proof (induction bs arbitrary: s)
  case (Cons b bs)
  obtain blk sync_mode where b: "b = (blk, sync_mode)" by (cases b)
  obtain h where h: "chainHandler (world s) = Some h" using Cons.prems by auto
  obtain c where c: "receive_block B blk (world s) = ((world s)\<lparr>chainHandler := Some (h\<lparr>chain := c\<rparr>)\<rparr>, Inr ())"
    "head_id B c = (if previous blk = node_head B (world s) \<and> snd (push_next B blk (chain h)) = Inr ()
                   then block_id blk else node_head B (world s))"
    using receive_block_ok [OF assms h, of blk] by blast
  let ?w = "(world s)\<lparr>chainHandler := Some (h\<lparr>chain := c\<rparr>)\<rparr>"
  let ?s = "\<lparr>syncing = sync_mode \<and> syncing s, world = ?w\<rparr>"
  have step: "handle_blocks (node_peers B net) (b # bs) s = handle_blocks (node_peers B net) bs ?s"
    using c(1) by (cases s) (auto simp: b handle_block_def node_peers_def run_effect_def Let_def)
  have w: "world ?s = ?w" by simp
  obtain h' s' where run: "handle_blocks (node_peers B net) bs ?s = (s', Inr ())"
    "chainHandler (world s') = Some h'"
    "links (node_head B ?w) (blocks_added B (map fst bs) ?w) (node_head B (world s'))"
    "world s' = ?w\<lparr>chainHandler := Some h'\<rparr>" "h' = (h\<lparr>chain := c\<rparr>)\<lparr>chain := chain h'\<rparr>"
    using Cons.IH [of ?s] unfolding w by auto
  have "node_head B ?w = head_id B c" by (simp add: node_head_def)
  then have "links (node_head B (world s)) (blocks_added B (map fst (b # bs)) (world s)) (node_head B (world s'))"
    using run(3) c h by (auto simp: b)
  with step run h show ?case by (auto intro!: exI [of _ h'])
qed (auto simp: node_head_def)

text \<open>
  C7. The node follows one chain: whatever blocks the network delivers, in whatever order, in and out
  of sync mode, no delivery fails, the blocks that the slot's \<open>try\<close> body adds form a linked chain from
  the old head block to the new one, and only the handler's chain has changed in the node. A push that
  returns without moving the head adds nothing: it is caught as one that did not update the chain.
\<close>

theorem node_follows_one_chain:
  assumes "push_ok B" and "chainHandler (world s) = Some h"
  shows "\<exists>c s'. handle_blocks (node_peers B net) deliveries s = (s', Inr ()) \<and>
    world s' = (world s)\<lparr>chainHandler := Some (h\<lparr>chain := c\<rparr>)\<rparr> \<and>
    links (head_id B (chain h)) (blocks_added B (map fst deliveries) (world s)) (head_id B c)"
proof -
  obtain h' s' where run: "handle_blocks (node_peers B net) deliveries s = (s', Inr ())"
    "chainHandler (world s') = Some h'"
    "links (node_head B (world s)) (blocks_added B (map fst deliveries) (world s)) (node_head B (world s'))"
    "world s' = (world s)\<lparr>chainHandler := Some h'\<rparr>" "h' = h\<lparr>chain := chain h'\<rparr>"
    using node_peers_slots [OF assms(1), of s net deliveries] assms(2) by auto
  have "node_head B (world s) = head_id B (chain h)" "node_head B (world s') = head_id B (chain h')"
    using assms(2) run(2) by (simp_all add: node_head_def)
  with run show ?thesis by metis
qed

text \<open>A database that refuses the blocks with a nonzero tag, except those with tag 9: it stores them
  beside its chain.\<close>

definition sample_blocks :: "(sample_tables, u32 \<times> nat, nat) block_ops" where
  "sample_blocks = \<lparr>head_id = (\<lambda>c. (of_nat (next_address c), 0)),
     push_block = (\<lambda>b c. if snd (block_id b) = 0 then (c\<lparr>next_address := unat (fst (block_id b))\<rparr>, Inr ())
                         else if snd (block_id b) = 9 then (c, Inr ())
                         else (c, Inl (FcException ''bad block''))),
     as_chain_db = (\<lambda>c. sample_db)\<rparr>"

lemma sample_blocks_ok: "push_ok sample_blocks"
  by (auto simp: push_ok_def sample_blocks_def prod_eq_iff)

abbreviation sample_block :: "u32 \<Rightarrow> u32 \<times> nat \<Rightarrow> (u32 \<times> nat, nat) signed_block" where
  "sample_block prev i \<equiv> \<lparr>previous = (prev, 0), block_id = i, timestamp = 0, transactions = []\<rparr>"

definition sample_net :: "(u32 \<times> nat, nat, (sample_tables, contract_index, nat, path, nat) node) p2p_peers" where
  "sample_net = \<lparr>blockReceived = (\<lambda>b n. (n, Inr ())), transactionReceived = (\<lambda>t n. (n, Inr ())),
     syncFinished = (\<lambda>n. (n, Inr ())), node_sync_from = (\<lambda>ty i n. (n, Inr ())),
     node_listen = (\<lambda>n. (n, Inr ())), node_connect = (\<lambda>n. (n, Inr ())), trx_message_id = (\<lambda>t. (0, t))\<rparr>"

theorem node_follows_one_chain_witness:
  "\<exists>c s'. handle_blocks (node_peers sample_blocks sample_net)
        [(sample_block 0 (1, 0), True), (sample_block 0 (2, 0), True), (sample_block 1 (2, 7), True),
         (sample_block 1 (2, 9), True), (sample_block 1 (2, 0), False)] \<lparr>syncing = True, world = sample_node\<rparr> = (s', Inr ()) \<and>
    world s' = sample_node\<lparr>chainHandler := Some (sample_chain\<lparr>chain := c\<rparr>)\<rparr> \<and>
    links (0, 0) [sample_block 0 (1, 0), sample_block 1 (2, 0)] (head_id sample_blocks c)"
proof -
  have head: "head_id sample_blocks (chain sample_chain) = (0, 0)"
    by (simp add: sample_blocks_def sample_chain_def)
  show ?thesis
    using node_follows_one_chain [OF sample_blocks_ok, of "\<lparr>syncing = True, world = sample_node\<rparr>" sample_chain
        sample_net "[(sample_block 0 (1, 0), True), (sample_block 0 (2, 0), True), (sample_block 1 (2, 7), True),
         (sample_block 1 (2, 9), True), (sample_block 1 (2, 0), False)]"]
    unfolding head
    by (simp add: sample_node_def sample_chain_def sample_blocks_def receive_block_def push_next_def node_head_def
        getChain_def)
qed

section \<open>Starting the node\<close>

text \<open>The getter of the chain handler, through which the module tree reaches it.\<close>

definition getChainHandler :: "('c, 'p, 'o, 'lib, 'w) node \<Rightarrow> ('c, 'p) chain_handler option" where
  "getChainHandler n = chainHandler n"

text \<open>What \<open>run\<close> uses besides: the home directory, the databases' starting values and their opening,
  the genesis environment, the files in the world and the construction of the P2P node.\<close>

record ('c, 'p, 'w, 'g, 'h) start_env =
  home_path :: path
  new_chain :: 'c
  new_persistence :: 'p
  open_persistence :: "path \<Rightarrow> 'p res"
  open_database :: "path \<Rightarrow> (files \<Rightarrow> files \<times> ('g, 'h) genesis_state res) \<Rightarrow> 'c \<Rightarrow> files \<Rightarrow> 'c \<times> files \<times> unit res"
  genesis_of :: "('g, 'h) genesis_env"
  get_files :: "'w \<Rightarrow> files"
  put_files :: "files \<Rightarrow> 'w \<Rightarrow> 'w"

definition new_ChainHandler :: "('c, 'p, 'w, 'g, 'h) start_env \<Rightarrow> ('c, 'p) chain_handler" where
  "new_ChainHandler E = \<lparr>basePath = path_append (home_path E) [''.config'', ''PeerplaysContractNode''],
     chain = new_chain E, persistence = new_persistence E, isOpen = False, loadedContracts = []\<rparr>"

definition initializeBlockchain ::
  "('c, 'p, 'w, 'g, 'h) start_env \<Rightarrow> 'p record_ops \<Rightarrow> 'c db_ops \<Rightarrow> ('c, 'lib, 'w) os \<Rightarrow>
   ('c, 'p, 'o, 'lib, 'w) node \<Rightarrow> ('c, 'p, 'o, 'lib, 'w) node \<times> unit res" where
  "initializeBlockchain E P ops os n =
     (case chainHandler n of
        None \<Rightarrow> (n, Inr ())
      | Some h \<Rightarrow>
          (case initialize_handler (open_persistence E) h of
             Inl e \<Rightarrow> (n, Inl e)
           | Inr h' \<Rightarrow>
               (case searchForPlugins os (parent_path (program_location os)) (n\<lparr>chainHandler := Some h'\<rparr>) of
                  (n1, Inl e) \<Rightarrow> (n1, Inl e)
                | (n1, Inr paths) \<Rightarrow> initializePlugins P ops os paths n1)))"

text \<open>The first \<open>try\<close> block of \<open>run\<close>.\<close>

definition start_chain ::
  "('c, 'p, 'w, 'g, 'h) start_env \<Rightarrow> 'p record_ops \<Rightarrow> 'c db_ops \<Rightarrow> ('c, 'lib, 'w) os \<Rightarrow>
   ('c, 'p, 'o, 'lib, 'w) node \<Rightarrow> ('c, 'p, 'o, 'lib, 'w) node \<times> unit res" where
  "start_chain E P ops os n =
     (case initializeBlockchain E P ops os (n\<lparr>chainHandler := Some (new_ChainHandler E)\<rparr>) of
        (n1, Inl e) \<Rightarrow> (n1, Inl e)
      | (n1, Inr _) \<Rightarrow>
          (case chainHandler n1 of
             None \<Rightarrow> (n1, Inl (UB ''null chainHandler''))
           | Some h \<Rightarrow>
               (let (h', fs, r) = open_chain (open_database E) (genesis_of E) h (get_files E (node_world n1))
                in (n1\<lparr>chainHandler := Some h', node_world := put_files E fs (node_world n1)\<rparr>, r))))"

text \<open>The second \<open>try\<close> block: the P2P handler is created with its slots, connects and starts to sync.\<close>

definition start_p2p ::
  "('c, 'id, 'trx) block_ops \<Rightarrow> ('id, 'trx, ('c, 'p, 'o, 'lib, 'w) node) p2p_peers \<Rightarrow>
   ('c, 'p, 'o, 'lib, 'w) node effect \<Rightarrow> ('c, 'p, 'o, 'lib, 'w) node \<Rightarrow>
   ('c, 'p, 'o, 'lib, 'w) node p2p_state \<times> unit res" where
  "start_p2p B net new_p2p n =
     (case chainHandler n of
        None \<Rightarrow> (\<lparr>syncing = False, world = n\<rparr>, Inl (UB ''null chainHandler''))
      | Some _ \<Rightarrow>
          (let peers = node_peers B net;
               (s1, r1) = run_effect new_p2p \<lparr>syncing = False, world = n\<rparr>
           in case r1 of
                Inl e \<Rightarrow> (s1, Inl e)
              | Inr _ \<Rightarrow>
                  (let (s2, r2) = connectToSeeds peers s1
                   in case r2 of
                        Inl e \<Rightarrow> (s2, Inl e)
                      | Inr _ \<Rightarrow>
                          (case chainHandler (world s2) of
                             None \<Rightarrow> (s2, Inl (UB ''null chainHandler''))
                           | Some h \<Rightarrow>
                               syncFrom peers (as_chain_db B (getChain h)) (head_id B (getChain h)) s2))))"

text \<open>The outcome of \<open>run\<close> up to the wait: it returns a status, an exception leaves it (and, uncaught
  in \<open>main\<close>, ends the program), or it waits for its exit promise.\<close>

datatype 's run_outcome = Returned 's int | Escaped 's cpp_error | Waiting 's

definition fc_guard :: "'s \<Rightarrow> cpp_error \<Rightarrow> 's run_outcome" where
  "fc_guard s e = (if is_fc_exception e then Returned s 1 else Escaped s e)"

definition run ::
  "('c, 'p, 'w, 'g, 'h) start_env \<Rightarrow> 'p record_ops \<Rightarrow> 'c db_ops \<Rightarrow> ('c, 'lib, 'w) os \<Rightarrow>
   ('c, 'id, 'trx) block_ops \<Rightarrow> ('id, 'trx, ('c, 'p, 'o, 'lib, 'w) node) p2p_peers \<Rightarrow>
   ('c, 'p, 'o, 'lib, 'w) node effect \<Rightarrow> ('c, 'p, 'o, 'lib, 'w) node \<Rightarrow>
   ('c, 'p, 'o, 'lib, 'w) node p2p_state run_outcome" where
  "run E P ops os B net new_p2p n =
     (case start_chain E P ops os n of
        (n1, Inl e) \<Rightarrow> fc_guard \<lparr>syncing = False, world = n1\<rparr> e
      | (n1, Inr _) \<Rightarrow>
          (case start_p2p B net new_p2p n1 of
             (s, Inl e) \<Rightarrow> fc_guard s e
           | (s, Inr _) \<Rightarrow> Waiting s))"

section \<open>Signals, queued work and the exit promise\<close>

datatype wait_error = No_error | Operation_aborted | Other_error
datatype os_signal = SIGINT | SIGUSR1 | SIGUSR2
datatype task = Search_task | Dump_task

text \<open>The running program: the P2P handler with the node, whether the signal set exists and how many
  waits on it are pending, the values given to the exit promise in order if there is one, and the work
  queued on the main thread. Which of the values a wait on the promise returns is fc's affair: the
  parameter \<open>promise\<close> of the definitions below gives it, and \<open>None\<close> while the wait does not return.\<close>

record 'n program =
  p2p :: "'n p2p_state"
  signalSet :: bool
  pending_waits :: nat
  exitPromise :: "bool list option"
  tasks :: "task list"

text \<open>\<open>waitForExit\<close> up to the wait, and the result of the wait as the \<open>int\<close> that \<open>run\<close> returns.\<close>

definition waitForExit :: "'n program \<Rightarrow> 'n program" where
  "waitForExit st =
     (let st1 = st\<lparr>exitPromise := Some []\<rparr>
      in if \<not> signalSet st1 then st1\<lparr>signalSet := True, pending_waits := pending_waits st1 + 1\<rparr> else st1)"

definition exit_status :: "(bool list \<Rightarrow> bool option) \<Rightarrow> 'n program \<Rightarrow> int option" where
  "exit_status promise st =
     Option.bind (exitPromise st) (\<lambda>vs. map_option (\<lambda>b. if b then 1 else 0) (promise vs))"

text \<open>What a wait on a promise does: it does not return before a value is set, and then returns one of
  the values that were set.\<close>

definition promise_ok :: "(bool list \<Rightarrow> bool option) \<Rightarrow> bool" where
  "promise_ok promise \<longleftrightarrow> promise [] = None \<and> (\<forall>vs. vs \<noteq> [] \<longrightarrow> (\<exists>b \<in> set vs. promise vs = Some b))"

definition exit_with :: "bool \<Rightarrow> 'n program \<Rightarrow> 'n program \<times> unit res" where
  "exit_with withError st =
     (case exitPromise st of
        None \<Rightarrow> (st, Inl (UB ''null exitPromise''))
      | Some vs \<Rightarrow> (st\<lparr>exitPromise := Some (vs @ [withError])\<rparr>, Inr ()))"

definition signalHandler :: "wait_error \<Rightarrow> os_signal \<Rightarrow> 'n program \<Rightarrow> 'n program \<times> unit res" where
  "signalHandler error signal st =
     (if error = Operation_aborted then (st, Inr ())
      else
        (let (st1, r) = (case signal of
               SIGINT \<Rightarrow> exit_with False st
             | SIGUSR1 \<Rightarrow> (st\<lparr>tasks := tasks st @ [Search_task]\<rparr>, Inr ())
             | SIGUSR2 \<Rightarrow> (st\<lparr>tasks := tasks st @ [Dump_task]\<rparr>, Inr ()))
         in case r of
              Inl e \<Rightarrow> (st1, Inl e)
            | Inr _ \<Rightarrow> (if signalSet st1 then st1\<lparr>pending_waits := pending_waits st1 + 1\<rparr> else st1, Inr ())))"

text \<open>A queued task runs on the main thread; what it throws ends in its future, which nobody reads.\<close>

definition run_task ::
  "'p record_ops \<Rightarrow> 'c db_ops \<Rightarrow> ('c, 'lib, 'w) os \<Rightarrow> ('c, 'obj, 'o) db_reader \<Rightarrow> task \<Rightarrow>
   ('c, 'p, 'o, 'lib, 'w) node \<Rightarrow> ('c, 'p, 'o, 'lib, 'w) node" where
  "run_task P ops os R t n =
     (case t of
        Search_task \<Rightarrow>
          (case searchForPlugins os (parent_path (program_location os)) n of
             (n1, Inl _) \<Rightarrow> n1
           | (n1, Inr paths) \<Rightarrow> fst (initializePlugins P ops os paths n1))
      | Dump_task \<Rightarrow>
          n\<lparr>log_lines := fst (dumpContractDatabases ops R n)\<rparr>)"

text \<open>What can happen to a waiting program: a signal ends a pending wait, the main thread takes a task,
  the network delivers a block, or the program is told to exit.\<close>

datatype ('id, 'trx) node_event =
    Signal wait_error os_signal
  | Task
  | Deliver "('id, 'trx) signed_block" bool
  | Exit bool

fun node_step ::
  "'p record_ops \<Rightarrow> 'c db_ops \<Rightarrow> ('c, 'lib, 'w) os \<Rightarrow> ('c, 'obj, 'o) db_reader \<Rightarrow> ('c, 'id, 'trx) block_ops \<Rightarrow>
   ('id, 'trx, ('c, 'p, 'o, 'lib, 'w) node) p2p_peers \<Rightarrow> ('id, 'trx) node_event \<Rightarrow>
   ('c, 'p, 'o, 'lib, 'w) node program \<Rightarrow> ('c, 'p, 'o, 'lib, 'w) node program" where
  "node_step P ops os R B net (Signal error signal) st =
     (if pending_waits st = 0 then st
      else fst (signalHandler error signal (st\<lparr>pending_waits := pending_waits st - 1\<rparr>)))"
| "node_step P ops os R B net Task st =
     (case tasks st of
        [] \<Rightarrow> st
      | t # ts \<Rightarrow> st\<lparr>tasks := ts, p2p := (p2p st)\<lparr>world := run_task P ops os R t (world (p2p st))\<rparr>\<rparr>)"
| "node_step P ops os R B net (Deliver block sync_mode) st =
     st\<lparr>p2p := fst (handle_block (node_peers B net) block sync_mode [] (p2p st))\<rparr>"
| "node_step P ops os R B net (Exit withError) st = fst (exit_with withError st)"

abbreviation "node_steps P ops os R B net \<equiv> fold (node_step P ops os R B net)"

text \<open>The exit value that an event asks for.\<close>

fun asks_exit :: "('id, 'trx) node_event \<Rightarrow> bool option" where
  "asks_exit (Signal error signal) = (if signal = SIGINT then Some False else None)"
| "asks_exit (Exit withError) = Some withError"
| "asks_exit _ = None"

lemma node_step_waiting:
  assumes "signalSet st" "pending_waits st = 1" "exitPromise st = Some vs"
    and "\<forall>signal. e \<noteq> Signal Operation_aborted signal"
  shows "signalSet (node_step P ops os R B net e st) \<and> pending_waits (node_step P ops os R B net e st) = 1 \<and>
    exitPromise (node_step P ops os R B net e st) = Some (vs @ (case asks_exit e of None \<Rightarrow> [] | Some b \<Rightarrow> [b]))"
proof (cases e)
  case (Signal error signal)
  then have "error \<noteq> Operation_aborted" using assms(4) by auto
  with Signal assms(1-3) show ?thesis
    by (cases signal) (simp_all add: signalHandler_def exit_with_def)
next
  case Task
  with assms(1-3) show ?thesis by (cases "tasks st") simp_all
qed (use assms(1-3) in \<open>simp_all add: exit_with_def\<close>)

lemma node_steps_waiting:
  assumes "\<forall>signal. Signal Operation_aborted signal \<notin> set es"
  shows "signalSet st \<Longrightarrow> pending_waits st = 1 \<Longrightarrow> exitPromise st = Some vs \<Longrightarrow>
    pending_waits (node_steps P ops os R B net es st) = 1 \<and>
    exitPromise (node_steps P ops os R B net es st) = Some (vs @ List.map_filter asks_exit es)"
  using assms
proof (induction es arbitrary: st vs)
  case (Cons e es)
  have "\<forall>signal. e \<noteq> Signal Operation_aborted signal" using Cons.prems(4) by auto
  from node_step_waiting [OF Cons.prems(1-3) this, of P ops os R B net]
  have "signalSet (node_step P ops os R B net e st)" "pending_waits (node_step P ops os R B net e st) = 1"
    "exitPromise (node_step P ops os R B net e st) = Some (vs @ (case asks_exit e of None \<Rightarrow> [] | Some b \<Rightarrow> [b]))"
    by blast+
  from Cons.IH [OF this] Cons.prems(4) show ?case
    by (cases "asks_exit e") (auto simp: List.map_filter_simps)
qed (simp add: List.map_filter_simps)

lemma asks_exit_in: "b \<in> set (List.map_filter asks_exit es) \<longleftrightarrow> (\<exists>e \<in> set es. asks_exit e = Some b)"
  by (induction es) (auto simp: List.map_filter_simps split: option.splits)

lemma promise_okD:
  assumes "promise_ok promise"
  shows "promise vs = None \<longleftrightarrow> vs = []" and "promise vs = Some b \<Longrightarrow> b \<in> set vs"
proof -
  have "vs = [] \<or> (\<exists>b \<in> set vs. promise vs = Some b)" using assms by (auto simp: promise_ok_def)
  moreover have "promise [] = None" using assms by (simp add: promise_ok_def)
  ultimately show "promise vs = None \<longleftrightarrow> vs = []" and "promise vs = Some b \<Longrightarrow> b \<in> set vs" by auto
qed

lemma no_exit_asked: "List.map_filter asks_exit es = [] \<longleftrightarrow> (\<forall>e \<in> set es. asks_exit e = None)"
  by (induction es) (auto simp: List.map_filter_simps split: option.splits)

text \<open>
  C20. Once it waits, for the first time or again, the node never stops listening: whatever signals,
  tasks, blocks and exit requests arrive, exactly one wait on the signal set is pending, so no signal is
  lost or handled twice. The wait for the exit promise ends exactly when an event has asked to exit, and
  its status is that of such an event: 0 for an interrupt, and for \<open>exit\<close> its argument. Which of
  several requests decides is left to the promise; it is the same for every other course of events with
  these requests, and with a single request it is that one.
\<close>

theorem waiting_node_exits_once:
  assumes "pending_waits st = (if signalSet st then 1 else 0)" and "promise_ok promise"
    and "\<forall>signal. Signal Operation_aborted signal \<notin> set es"
  shows "let st' = node_steps P ops os R B net es (waitForExit st) in
    pending_waits st' = 1 \<and>
    exit_status promise st' =
      map_option (\<lambda>b. if b then 1 else 0) (promise (List.map_filter asks_exit es)) \<and>
    (exit_status promise st' = None \<longleftrightarrow> (\<forall>e \<in> set es. asks_exit e = None)) \<and>
    (\<forall>k. exit_status promise st' = Some k \<longrightarrow>
       (\<exists>e \<in> set es. asks_exit e = Some True \<and> k = 1 \<or> asks_exit e = Some False \<and> k = 0))"
proof -
  let ?st = "node_steps P ops os R B net es (waitForExit st)"
  let ?vs = "List.map_filter asks_exit es"
  have st: "pending_waits ?st = 1" "exitPromise ?st = Some ?vs"
    using node_steps_waiting [OF assms(3), of "waitForExit st" "[]" P ops os R B net] assms(1)
    by (auto simp: waitForExit_def split: if_splits)
  have status: "exit_status promise ?st = map_option (\<lambda>b. if b then 1 else 0) (promise ?vs)"
    using st(2) by (simp add: exit_status_def)
  have none: "?vs = [] \<longleftrightarrow> (\<forall>e \<in> set es. asks_exit e = None)" by (rule no_exit_asked)
  note p = promise_okD [OF assms(2), of ?vs]
  have "\<exists>e \<in> set es. asks_exit e = Some True \<and> k = 1 \<or> asks_exit e = Some False \<and> k = 0"
    if "exit_status promise ?st = Some k" for k
  proof -
    have "map_option (\<lambda>b. if b then 1 else 0) (promise ?vs) = Some k" using that unfolding status .
    then obtain b where b: "promise ?vs = Some b" "k = (if b then 1 else 0)"
      unfolding map_option_eq_Some by blast
    then obtain e where "e \<in> set es" "asks_exit e = Some b" using p(2) asks_exit_in by blast
    with b(2) show ?thesis by (cases b) auto
  qed
  with st(1) status p(1) none show ?thesis unfolding Let_def by simp
qed

definition sample_program :: "(sample_tables, contract_index, nat, path, nat) node program" where
  "sample_program = \<lparr>p2p = \<lparr>syncing = True, world = sample_node\<rparr>, signalSet = False, pending_waits = 0,
     exitPromise = None, tasks = []\<rparr>"

text \<open>A promise that keeps its first value, and one that takes its last.\<close>

definition first_value :: "bool list \<Rightarrow> bool option" where
  "first_value vs = (if vs = [] then None else Some (hd vs))"

definition last_value :: "bool list \<Rightarrow> bool option" where
  "last_value vs = (if vs = [] then None else Some (last vs))"

lemma value_promises_ok: "promise_ok first_value" "promise_ok last_value"
  by (simp_all add: promise_ok_def first_value_def last_value_def)

theorem waiting_node_exits_once_witness:
  "let st = node_steps contract_index_ops sample_db_ops sample_os sample_reader sample_blocks sample_net
       [Signal No_error SIGUSR1, Task, Exit True, Signal Other_error SIGINT] (waitForExit sample_program)
   in pending_waits st = 1 \<and> exit_status first_value st = Some 1 \<and> exit_status last_value st = Some 0"
proof -
  let ?es = "[Signal No_error SIGUSR1, Task, Exit True, Signal Other_error SIGINT] :: (u32 \<times> nat, nat) node_event list"
  let ?st = "node_steps contract_index_ops sample_db_ops sample_os sample_reader sample_blocks sample_net
       ?es (waitForExit sample_program)"
  have start: "pending_waits sample_program = (if signalSet sample_program then 1 else 0)"
    by (simp add: sample_program_def)
  have none: "\<forall>signal. Signal Operation_aborted signal \<notin> set ?es" by simp
  have "pending_waits ?st = 1 \<and> exit_status promise ?st = map_option (\<lambda>b. if b then 1 else 0) (promise [True, False])"
    if "promise_ok promise" for promise
    using waiting_node_exits_once [OF start that none, of contract_index_ops sample_db_ops sample_os sample_reader
        sample_blocks sample_net] unfolding Let_def by (simp add: List.map_filter_simps)
  from this [OF value_promises_ok(1)] this [OF value_promises_ok(2)] show ?thesis
    unfolding Let_def by (simp add: first_value_def last_value_def)
qed

section \<open>The node's invariant\<close>

text \<open>The registry of libraries is a map; the chain handler keeps its invariant; every contract monitor
  has an identity of its own and watches a loaded contract, under its name and in its space.\<close>

definition node_ok :: "('c, contract_index, 'o, 'lib, 'w) node \<Rightarrow> bool" where
  "node_ok n \<longleftrightarrow> map_ok (loadedLibraries n) \<and>
     distinct (map monitor_id (contractMonitors n)) \<and>
     list_all (\<lambda>cm. monitor_id cm < next_monitor n) (contractMonitors n) \<and>
     (case chainHandler n of
        None \<Rightarrow> contractMonitors n = []
      | Some h \<Rightarrow> handler_ok index_records index_ok h \<and>
          list_all (\<lambda>cm. (spaceId cm, contractName cm) \<in> set (loadedContracts h)) (contractMonitors n))"

lemma emplace_superset: "set m \<subseteq> set (map_emplace k v m)"
  by (induction k v m rule: map_emplace.induct) auto

lemma initializeContract_loaded:
  "set (loadedContracts h) \<subseteq> set (loadedContracts (fst (initializeContract P name f h)))"
  using emplace_superset [of "loadedContracts h"]
  by (auto simp: initializeContract_def Let_def split: prod.split sum.split)

lemma handler_ok_chain [simp]: "handler_ok recs ok (h\<lparr>chain := c\<rparr>) = handler_ok recs ok h"
  by (simp add: handler_ok_def)

lemma handler_ok_isOpen [simp]: "handler_ok recs ok (h\<lparr>isOpen := b\<rparr>) = handler_ok recs ok h"
  by (simp add: handler_ok_def)

lemma getSpaceId_loaded: "getSpaceId h name = Inr k \<Longrightarrow> (k, name) \<in> set (loadedContracts h)"
  by (force simp: getSpaceId_def find_Some_iff split: option.splits)

lemma attach_monitors_fields:
  "attach_monitors ops idxs (d, heap, cm) = ((d', heap', cm'), r) \<Longrightarrow>
   monitor_id cm' = monitor_id cm \<and> contractName cm' = contractName cm \<and> spaceId cm' = spaceId cm"
proof (induction idxs arbitrary: d heap cm)
  case (Cons idx idxs)
  obtain d1 heap1 cm1 r1 where run: "attach_monitor ops idx (d, heap, cm) = ((d1, heap1, cm1), r1)"
    by (metis prod.collapse)
  then have "monitor_id cm1 = monitor_id cm \<and> contractName cm1 = contractName cm \<and> spaceId cm1 = spaceId cm"
    by (auto simp: attach_monitor_def Let_def split: prod.splits sum.splits)
  with run Cons show ?case by (cases r1) fastforce+
qed simp

lemma MultiTableMonitor_fields:
  "MultiTableMonitor ops i name k d heap = (d', heap', Inr cm) \<Longrightarrow>
   monitor_id cm = i \<and> contractName cm = name \<and> spaceId cm = k"
  using attach_monitors_fields
  by (fastforce simp: MultiTableMonitor_def rbind_def split: sum.splits prod.splits)

lemma observeContract_name_ok:
  assumes "observeContract_name ops i name (h, heap) = ((h', heap'), r)"
  shows "\<exists>c. h' = h\<lparr>chain := c\<rparr> \<and> (\<forall>cm. r = Inr cm \<longrightarrow> monitor_id cm = i \<and>
    (spaceId cm, contractName cm) \<in> set (loadedContracts h))"
proof (cases "getSpaceId h name")
  case (Inl e)
  with assms have "h' = h\<lparr>chain := chain h\<rparr>" "r = Inl e" by (simp_all add: observeContract_name_def)
  then show ?thesis by blast
next
  case (Inr k)
  obtain d heap1 r1 where run: "MultiTableMonitor ops i name k (chain h) heap = (d, heap1, r1)"
    by (metis prod.collapse)
  with Inr assms have "h' = h\<lparr>chain := d\<rparr>" "r = r1"
    by (auto simp: observeContract_name_def observeContract_def)
  moreover have "monitor_id cm = i \<and> (spaceId cm, contractName cm) \<in> set (loadedContracts h)" if "r1 = Inr cm" for cm
    using MultiTableMonitor_fields [OF run [unfolded that]] getSpaceId_loaded [OF Inr] by simp
  ultimately show ?thesis by blast
qed

lemma node_ok_fields [simp]:
  "node_ok (n\<lparr>node_world := w\<rparr>) = node_ok n" "node_ok (n\<lparr>log_lines := out\<rparr>) = node_ok n"
  by (auto simp: node_ok_def split: option.split)

lemma loads_node_ok: "node_ok n \<Longrightarrow> loads os n new n' \<Longrightarrow> node_ok n'"
  unfolding loads_def node_ok_def by (cases n, cases n') (simp split: option.splits)

lemma initializePlugin_try_ok:
  assumes "node_ok n"
  shows "node_ok (fst (initializePlugin_try contract_index_ops ops os lib n))"
proof (cases "contractName_symbol os lib = Some None \<or> registerContract_symbol os lib = None \<or> chainHandler n = None")
  case True
  with assms show ?thesis
    by (auto simp: initializePlugin_try_def Let_def split: option.split)
next
  case False
  then obtain f h where f: "registerContract_symbol os lib = Some f" and h: "chainHandler n = Some h" by auto
  let ?name = "case contractName_symbol os lib of Some (Some s) \<Rightarrow> s | _ \<Rightarrow> filename (location os lib)"
  obtain h1 r1 where init: "initializeContract contract_index_ops ?name f h = (h1, r1)" by fastforce
  have h1: "handler_ok index_records index_ok h1" "set (loadedContracts h) \<subseteq> set (loadedContracts h1)"
    using contract_store.initializeContract_ok [of h ?name f] initializeContract_loaded [of h contract_index_ops ?name f]
      assms h init by (auto simp: node_ok_def)
  let ?n1 = "n\<lparr>chainHandler := Some h1\<rparr>"
  have n1: "node_ok ?n1" using assms h h1 by (auto simp: node_ok_def list_all_iff)
  obtain h2 heap r2 where obs:
    "observeContract_name ops (next_monitor n) ?name (h1, monitor_heap n) = ((h2, heap), r2)"
    by (metis prod.collapse)
  then obtain c where h2: "h2 = h1\<lparr>chain := c\<rparr>" and cm: "\<And>cm. r2 = Inr cm \<Longrightarrow> monitor_id cm = next_monitor n \<and>
      (spaceId cm, contractName cm) \<in> set (loadedContracts h1)"
    using observeContract_name_ok [OF obs] by blast
  let ?n2 = "n\<lparr>chainHandler := Some h2, monitor_heap := heap, next_monitor := Suc (next_monitor n)\<rparr>"
  have n2: "node_ok ?n2" using n1 h2 by (auto simp: node_ok_def list_all_iff)
  have n3: "node_ok (?n2\<lparr>connections := conns, contractMonitors := contractMonitors n @ [cm]\<rparr>)"
    if "r2 = Inr cm" for cm conns
    using n2 cm [OF that] h2 n1 by (fastforce simp: node_ok_def list_all_iff)
  have "initializePlugin_try contract_index_ops ops os lib n =
      (case r1 of Inl e \<Rightarrow> (?n1, Inl e) | Inr False \<Rightarrow> (?n1, Inr False)
       | Inr True \<Rightarrow> (case r2 of Inl e \<Rightarrow> (?n2, Inl e)
           | Inr cm \<Rightarrow> (?n2\<lparr>connections := (connections n)(next_monitor n \<mapsto> (tableNames_symbol os lib, ?name)),
                            contractMonitors := contractMonitors n @ [cm]\<rparr>, Inr True)))"
    using False f h init obs
    by (auto simp: initializePlugin_try_def Let_def split: option.splits sum.splits bool.splits)
  with n1 n2 n3 show ?thesis by (auto split: sum.split bool.split)
qed

lemma initializePlugin_ok: "node_ok n \<Longrightarrow> node_ok (fst (initializePlugin contract_index_ops ops os lib n))"
  using initializePlugin_try_ok [of n ops os lib]
  by (auto simp: initializePlugin_def split: prod.split sum.split)

lemma initializePlugins_ok:
  "node_ok n \<Longrightarrow> node_ok (fst (initializePlugins contract_index_ops ops os paths n))"
proof (induction paths arbitrary: n)
  case (Cons p ps)
  show ?case
  proof (cases "map_find (loadedLibraries n) p")
    case (Some lib)
    obtain n1 r where run: "initializePlugin contract_index_ops ops os lib n = (n1, r)" by fastforce
    have n1: "node_ok n1" using initializePlugin_ok [OF Cons.prems, of ops os lib] run by simp
    then have "node_ok (n1\<lparr>node_world := w, loadedLibraries := map_erase p (loadedLibraries n1)\<rparr>)" for w
      by (auto simp: node_ok_def map_ok_erase split: option.split)
    with n1 Cons.IH Some run show ?thesis by (auto split: sum.split bool.split)
  qed (use Cons.prems in simp)
qed simp

lemma searchForPlugins_ok:
  assumes "node_ok n" shows "node_ok (fst (searchForPlugins os dir n))"
proof -
  obtain n' r where run: "searchForPlugins os dir n = (n', r)" by fastforce
  have "map_ok (loadedLibraries n)" using assms by (simp add: node_ok_def)
  from search_loads [OF this run] loads_node_ok [OF assms] run show ?thesis by auto
qed

lemma receive_block_node_ok: "node_ok n \<Longrightarrow> node_ok (fst (receive_block B b n))"
  by (auto simp: receive_block_def node_ok_def Let_def split: option.splits prod.split)

lemma run_task_ok:
  assumes "node_ok n" shows "node_ok (run_task contract_index_ops ops os R t n)"
proof (cases t)
  case Search_task
  obtain n1 r where run: "searchForPlugins os (parent_path (program_location os)) n = (n1, r)" by fastforce
  have "node_ok n1" using searchForPlugins_ok [OF assms, of os "parent_path (program_location os)"] run by simp
  with run initializePlugins_ok Search_task show ?thesis by (cases r) (auto simp: run_task_def)
next
  case Dump_task
  with assms show ?thesis by (auto simp: run_task_def split: sum.split)
qed

lemma handle_block_node_ok:
  assumes "node_ok (world s)"
  shows "node_ok (world (fst (handle_block (node_peers B net) b sync_mode ids s)))"
  using receive_block_node_ok [OF assms, of B b]
  by (auto simp: handle_block_def run_effect_def node_peers_def Let_def split: prod.split sum.split)

definition program_ok :: "('c, contract_index, 'o, 'lib, 'w) node program \<Rightarrow> bool" where
  "program_ok st \<longleftrightarrow> node_ok (world (p2p st))"

lemma exit_with_p2p: "p2p (fst (exit_with b st)) = p2p st"
  by (auto simp: exit_with_def split: option.split)

lemma signalHandler_p2p: "p2p (fst (signalHandler error signal st)) = p2p st"
  using exit_with_p2p [of False st]
  by (cases signal) (auto simp: signalHandler_def Let_def split: prod.splits sum.splits)

interpretation node_run: kept_invariant "node_step contract_index_ops ops os R B net" program_ok
proof
  fix st :: "('a, contract_index, 'e, 'b, 'c) node program" and e
  assume ok: "program_ok st"
  show "program_ok (node_step contract_index_ops ops os R B net e st)"
  proof (cases e)
    case Task
    with ok run_task_ok [of "world (p2p st)"] show ?thesis
      by (cases "tasks st") (simp_all add: program_ok_def)
  next
    case (Deliver b sync_mode)
    with ok handle_block_node_ok [of "p2p st"] show ?thesis by (simp add: program_ok_def)
  qed (use ok in \<open>simp_all add: program_ok_def signalHandler_p2p exit_with_p2p\<close>)
qed

text \<open>
  C8. The running node keeps its invariant: through any sequence of signals, searches for plugins,
  contracts that register, refuse or throw, dumps, blocks and exit requests, the chain handler's loaded
  contracts stay recorded under their own spaces, contract monitors keep identities of their own, and
  each of them watches a loaded contract under that contract's name and space.
\<close>

theorem running_node_keeps_invariant:
  assumes "program_ok st"
  shows "program_ok (node_steps contract_index_ops ops os R B net es st)"
  using assms by (rule node_run.run_keeps)

lemma sample_node_ok: "node_ok sample_node"
  using sample_index_ok
  by (simp add: node_ok_def sample_node_def handler_ok_def sample_chain_def)

theorem running_node_keeps_invariant_witness:
  "program_ok (node_steps contract_index_ops sample_db_ops sample_os sample_reader sample_blocks sample_net
     [Signal No_error SIGUSR1, Task, Deliver (sample_block 0 (1, 0)) False] sample_program)"
  by (rule running_node_keeps_invariant) (simp add: program_ok_def sample_program_def sample_node_ok)

section \<open>What startup achieves\<close>

definition node_ready :: "('c, contract_index, 'o, 'lib, 'w) node \<Rightarrow> bool" where
  "node_ready n \<longleftrightarrow> node_ok n \<and> (\<exists>h. chainHandler n = Some h \<and> isOpen h)"

definition keeps_ready :: "('c, contract_index, 'o, 'lib, 'w) node effect \<Rightarrow> bool" where
  "keeps_ready f \<longleftrightarrow> (\<forall>n. node_ready n \<longrightarrow> node_ready (fst (f n)))"

lemma initializePlugin_try_handler:
  "chainHandler n \<noteq> None \<Longrightarrow> chainHandler (fst (initializePlugin_try P ops os lib n)) \<noteq> None"
  by (auto simp: initializePlugin_try_def Let_def split: option.split sum.split prod.split bool.split)

lemma initializePlugins_handler:
  "chainHandler n \<noteq> None \<Longrightarrow> chainHandler (fst (initializePlugins P ops os paths n)) \<noteq> None"
proof (induction paths arbitrary: n)
  case (Cons p ps)
  show ?case
  proof (cases "map_find (loadedLibraries n) p")
    case (Some lib)
    obtain n1 r where run: "initializePlugin P ops os lib n = (n1, r)" by fastforce
    have "chainHandler n1 \<noteq> None"
      using initializePlugin_try_handler [OF Cons.prems, of P ops os lib] run
      by (auto simp: initializePlugin_def split: prod.splits sum.splits)
    with Cons.IH Some run show ?thesis by (auto split: sum.split bool.split)
  qed (use Cons.prems in simp)
qed simp

lemma loads_handler: "loads os n new n' \<Longrightarrow> chainHandler n' = chainHandler n"
  by (cases n, cases n') (simp add: loads_def)

lemma start_chain_ready:
  fixes n :: "('c, contract_index, 'o, 'lib, 'w) node"
  assumes "map_ok (loadedLibraries n)" "contractMonitors n = []"
    and "\<forall>path p. open_persistence E path = Inr p \<longrightarrow> index_ok p"
    and "start_chain E contract_index_ops ops os n = (n1, Inr ())"
  shows "node_ready n1"
proof -
  let ?n = "n\<lparr>chainHandler := Some (new_ChainHandler E)\<rparr>"
  obtain n2 where init: "initializeBlockchain E contract_index_ops ops os ?n = (n2, Inr ())"
    using assms(4) by (auto simp: start_chain_def split: prod.splits sum.splits)
  obtain h where h: "initialize_handler (open_persistence E) (new_ChainHandler E) = Inr h"
    using init by (auto simp: initializeBlockchain_def split: sum.splits)
  then have "handler_ok index_records index_ok h"
    using assms(3) by (auto simp: initialize_handler_def rbind_eq_Inr handler_ok_def new_ChainHandler_def)
  then have ok: "node_ok (?n\<lparr>chainHandler := Some h\<rparr>)"
    using assms(1,2) by (simp add: node_ok_def)
  obtain n3 paths where search: "searchForPlugins os (parent_path (program_location os))
      (?n\<lparr>chainHandler := Some h\<rparr>) = (n3, Inr paths)" and
    plugins: "initializePlugins contract_index_ops ops os paths n3 = (n2, Inr ())"
    using init h by (auto simp: initializeBlockchain_def split: prod.splits sum.splits)
  have "node_ok n3" using searchForPlugins_ok [OF ok, of os "parent_path (program_location os)"] search by simp
  then have n2: "node_ok n2" using initializePlugins_ok [of n3 ops os paths] plugins by simp
  have "loads os (?n\<lparr>chainHandler := Some h\<rparr>) paths n3"
    using search_loads [OF _ search] assms(1) by simp
  then have "chainHandler n3 = Some h" by (simp add: loads_handler)
  then have "chainHandler n2 \<noteq> None" using initializePlugins_handler [of n3 contract_index_ops ops os paths] plugins by simp
  then obtain h2 where h2: "chainHandler n2 = Some h2" by auto
  obtain h3 fs where opened: "open_chain (open_database E) (genesis_of E) h2 (get_files E (node_world n2)) = (h3, fs, Inr ())"
    "n1 = n2\<lparr>chainHandler := Some h3, node_world := put_files E fs (node_world n2)\<rparr>"
    using assms(4) init h2 by (auto simp: start_chain_def Let_def split: prod.splits)
  then have h3: "\<exists>c. h3 = h2\<lparr>chain := c, isOpen := True\<rparr>"
    by (auto simp: open_chain_def Let_def split: prod.splits sum.splits)
  then have "node_ok (n2\<lparr>chainHandler := Some h3\<rparr>)" using n2 h2 by (auto simp: node_ok_def list_all_iff)
  with opened h3 show ?thesis by (auto simp: node_ready_def)
qed

lemma start_p2p_syncing:
  assumes "node_ready n" "keeps_ready new_p2p" "keeps_ready (node_listen net)" "keeps_ready (node_connect net)"
    and "\<forall>ty i. keeps_ready (node_sync_from net ty i)" and "start_p2p B net new_p2p n = (s, Inr ())"
  shows "syncing s \<and> node_ready (world s)"
proof -
  have field: "node_listen (node_peers B net) = node_listen net" "node_connect (node_peers B net) = node_connect net"
    "node_sync_from (node_peers B net) = node_sync_from net" by (simp_all add: node_peers_def)
  obtain h where h: "chainHandler n = Some h" using assms(1) by (auto simp: node_ready_def)
  obtain n1 where n1: "new_p2p n = (n1, Inr ())"
    using assms(6) h by (auto simp: start_p2p_def run_effect_def Let_def split: prod.splits sum.splits)
  obtain n2 where n2: "node_listen net n1 = (n2, Inr ())"
    using assms(6) h n1 by (auto simp: start_p2p_def run_effect_def connectToSeeds_def field Let_def split: prod.splits sum.splits)
  obtain n3 where n3: "node_connect net n2 = (n3, Inr ())"
    using assms(6) h n1 n2 by (auto simp: start_p2p_def run_effect_def connectToSeeds_def field Let_def split: prod.splits sum.splits)
  have ready: "node_ready n3"
    using assms(1-4) n1 n2 n3 unfolding keeps_ready_def by (metis fst_conv)
  then obtain h3 where h3: "chainHandler n3 = Some h3" by (auto simp: node_ready_def)
  let ?ty = "block_message_type (as_chain_db B (getChain h3))" and ?i = "head_id B (getChain h3)"
  have "s = \<lparr>syncing = True, world = fst (node_sync_from net ?ty ?i n3)\<rparr>"
    using assms(6) h n1 n2 n3 h3
    by (auto simp: start_p2p_def run_effect_def connectToSeeds_def syncFrom_def field Let_def split: prod.splits sum.splits)
  moreover have "node_ready (fst (node_sync_from net ?ty ?i n3))"
    using assms(5) ready by (simp add: keeps_ready_def)
  ultimately show ?thesis by simp
qed

text \<open>
  C9. What \<open>run\<close> promises: it returns early only with status 1, no FC exception escapes from it, and
  when it comes to wait, the chain is open, the node's invariant holds for the contracts registered on
  the way, and a sync has begun. The network calls may change the node as long as they keep it ready.
\<close>

theorem run_outcome:
  fixes n :: "('c, contract_index, 'o, 'lib, 'w) node"
  assumes "map_ok (loadedLibraries n)" and "contractMonitors n = []"
    and "\<forall>path p. open_persistence E path = Inr p \<longrightarrow> index_ok p"
    and "keeps_ready new_p2p" and "keeps_ready (node_listen net)" and "keeps_ready (node_connect net)"
    and "\<forall>ty i. keeps_ready (node_sync_from net ty i)"
  shows "case run E contract_index_ops ops os B net new_p2p n of
      Returned s k \<Rightarrow> k = 1
    | Escaped s e \<Rightarrow> \<not> is_fc_exception e
    | Waiting s \<Rightarrow> isSyncing s \<and> node_ready (world s)"
proof -
  obtain n1 r1 where chain: "start_chain E contract_index_ops ops os n = (n1, r1)" by fastforce
  show ?thesis
  proof (cases r1)
    case (Inl e)
    with chain show ?thesis by (simp add: run_def fc_guard_def)
  next
    case (Inr u)
    then have ready: "node_ready n1" using start_chain_ready [OF assms(1-3)] chain by simp
    obtain s r2 where p2p: "start_p2p B net new_p2p n1 = (s, r2)" by fastforce
    show ?thesis
    proof (cases r2)
      case (Inl e)
      with chain Inr p2p show ?thesis by (simp add: run_def fc_guard_def)
    next
      case (Inr u2)
      with start_p2p_syncing [OF ready assms(4-7), of B s] p2p have "syncing s \<and> node_ready (world s)" by simp
      with chain \<open>r1 = Inr u\<close> p2p Inr show ?thesis by (simp add: run_def isSyncing_def)
    qed
  qed
qed

definition sample_start :: "(sample_tables, contract_index, nat, unit, string) start_env" where
  "sample_start = \<lparr>home_path = Path [''home''],
     new_chain = \<lparr>all_indexes = [], next_address = 0, attached_monitors = []\<rparr>,
     new_persistence = \<lparr>next_number = 0, index_records = []\<rparr>,
     open_persistence = (\<lambda>p. Inr sample_index),
     open_database = (\<lambda>p genesis c fs. (c\<lparr>next_address := 4\<rparr>, fst (genesis fs), Inr ())),
     genesis_of = sample_env, get_files = (\<lambda>w. Map.empty), put_files = (\<lambda>fs w. w)\<rparr>"

definition bare_os :: "(sample_tables, path, nat) os" where
  "bare_os = sample_os\<lparr>is_directory := (\<lambda>p w. Inr False)\<rparr>"

lemma sample_search_bare: "searchForPlugins bare_os dir n = (n, Inr [])"
  by (simp add: searchForPlugins_def loadPlugins_def bare_os_def sample_os_def)

lemma sample_start_chain:
  "\<exists>n1 h. start_chain sample_start contract_index_ops sample_db_ops bare_os n = (n1, Inr ()) \<and> chainHandler n1 = Some h"
  by (simp add: start_chain_def initializeBlockchain_def initialize_handler_def sample_search_bare
      open_chain_def sample_start_def new_ChainHandler_def Let_def)

lemma sample_run:
  "\<exists>s. run sample_start contract_index_ops sample_db_ops bare_os sample_blocks sample_net (\<lambda>n. (n, Inr ())) n = Waiting s"
proof -
  obtain n1 h where "start_chain sample_start contract_index_ops sample_db_ops bare_os n = (n1, Inr ())"
    "chainHandler n1 = Some h" using sample_start_chain by blast
  then show ?thesis
    by (simp add: run_def start_p2p_def run_effect_def connectToSeeds_def syncFrom_def node_peers_def sample_net_def)
qed

theorem run_outcome_witness:
  "\<exists>s. run sample_start contract_index_ops sample_db_ops bare_os sample_blocks sample_net
      (\<lambda>n. (n, Inr ())) (sample_node\<lparr>chainHandler := None\<rparr>) = Waiting s \<and> isSyncing s \<and> node_ready (world s)"
proof -
  obtain s where s: "run sample_start contract_index_ops sample_db_ops bare_os sample_blocks sample_net
      (\<lambda>n. (n, Inr ())) (sample_node\<lparr>chainHandler := None\<rparr>) = Waiting s" using sample_run by blast
  have "case run sample_start contract_index_ops sample_db_ops bare_os sample_blocks sample_net
      (\<lambda>n. (n, Inr ())) (sample_node\<lparr>chainHandler := None\<rparr>) of
     Returned s k \<Rightarrow> k = 1 | Escaped s e \<Rightarrow> \<not> is_fc_exception e | Waiting s \<Rightarrow> isSyncing s \<and> node_ready (world s)"
    by (rule run_outcome)
      (simp_all add: sample_node_def sample_start_def sample_index_ok sample_net_def keeps_ready_def)
  with s show ?thesis by simp
qed

end
