(* ===== verification/Sync_Protocol.thy ===== *)
theory Sync_Protocol
  imports Contract_Node "HOL-Library.Sublist"
begin

text \<open>
  What the delegate of \<open>P2p_Handler\<close> and the slot of \<open>Contract_Node\<close> achieve together when nodes
  synchronise. Graphene's network node, which calls the delegate, moves the messages and chooses the
  blocks to deliver, is no part of this: it is a parameter, a list of deliveries, or a trace of states
  with the deliveries between them, and a theorem that needs something of it says so as a predicate on
  what is delivered. The theorems say which blocks reach the chain, when a node catches up with a peer
  and when it never does.
\<close>

section \<open>The peer, and what we share with it\<close>

definition chain_id_at :: "('id, 'trx) chain_db \<Rightarrow> nat \<Rightarrow> 'id" where
  "chain_id_at db n = (if n = 0 then zero_id db else main_id db n)"

abbreviation head_num :: "('id, 'trx) chain_db \<Rightarrow> nat" where
  "head_num db \<equiv> unat (head_block_num db)"

text \<open>A peer that can serve its main chain: it knows every block of it, has its content, and each block
  names the one before it.\<close>

definition peer_serves :: "('id, 'trx) chain_db \<Rightarrow> (nat \<Rightarrow> ('id, 'trx) signed_block) \<Rightarrow> bool" where
  "peer_serves peer blk \<longleftrightarrow> main_chain_ok peer \<and>
     (\<forall>n. 0 < n \<and> n \<le> head_num peer \<longrightarrow>
        is_known_block peer (main_id peer n) \<and> fetch_block_by_id peer (main_id peer n) = Some (blk n) \<and>
        block_id (blk n) = main_id peer n \<and> previous (blk n) = chain_id_at peer (n - 1))"

text \<open>Two chains of one network that agree up to block \<open>f\<close>.\<close>

definition agree_to :: "('id, 'trx) chain_db \<Rightarrow> ('id, 'trx) chain_db \<Rightarrow> nat \<Rightarrow> bool" where
  "agree_to ours peer f \<longleftrightarrow> main_chain_ok ours \<and> last_non_undoable_block_num ours \<le> head_block_num ours \<and>
     zero_id ours = zero_id peer \<and> num_from_id ours = num_from_id peer \<and>
     f \<le> head_num ours \<and> f \<le> head_num peer \<and> (\<forall>n. 0 < n \<and> n \<le> f \<longrightarrow> main_id ours n = main_id peer n)"



lemma num_chain_id_at:
  assumes "main_chain_ok peer" "n \<le> head_num peer"
  shows "unat (num_from_id peer (chain_id_at peer n)) = n"
proof (cases "n = 0")
  case False
  have "n < 2 ^ 32" using assms by (simp add: main_chain_ok_def)
  with False assms show ?thesis by (simp add: chain_id_at_def num_main_id unat_of_nat)
qed (use assms in \<open>simp add: chain_id_at_def main_chain_ok_def\<close>)



lemma peer_ids:
  fixes peer :: "('id, 'trx) chain_db" and limit :: u32
  assumes serves: "peer_serves peer blk" and head: "0 < head_num peer"
    and found: "last_known_block peer synopsis = Inr (chain_id_at peer n)" and n: "n \<le> head_num peer"
  shows "get_block_ids peer synopsis limit = Inr
    (map (main_id peer) [max 1 n ..< max 1 n + min (unat limit) (head_num peer + 1 - max 1 n)],
     if min (unat limit) (head_num peer + 1 - max 1 n) = 0 then 0
     else of_nat (head_num peer + 1 - (max 1 n + min (unat limit) (head_num peer + 1 - max 1 n))))"
proof -
  have ok: "main_chain_ok peer" using serves by (simp add: peer_serves_def)
  have nz: "head_block_num peer \<noteq> 0" using head by auto
  have num: "unat (num_from_id peer (chain_id_at peer n)) = n" using num_chain_id_at [OF ok n] .
  show ?thesis using get_block_ids_eq [OF ok nz found, of limit] unfolding Let_def num .
qed




section \<open>Delivering the peer's blocks\<close>

definition with_chain :: "('c, 'p, 'o, 'lib, 'w) node p2p_state \<Rightarrow> ('c, 'p) chain_handler \<Rightarrow> 'c \<Rightarrow>
    ('c, 'p, 'o, 'lib, 'w) node p2p_state" where
  "with_chain s h c = s\<lparr>world := (world s)\<lparr>chainHandler := Some (h\<lparr>chain := c\<rparr>)\<rparr>\<rparr>"

lemma with_chain_simps [simp]:
  "chainHandler (world (with_chain s h c)) = Some (h\<lparr>chain := c\<rparr>)"
  "with_chain (with_chain s h c) (h\<lparr>chain := c\<rparr>) c' = with_chain s h c'"
  "syncing (with_chain s h c) = syncing s"
  by (simp_all add: with_chain_def)


text \<open>The flag after some deliveries: they end a sync unless all of them are in sync mode.\<close>

definition with_modes :: "'w p2p_state \<Rightarrow> bool list \<Rightarrow> 'w p2p_state" where
  "with_modes s modes = s\<lparr>syncing := syncing s \<and> list_all id modes\<rparr>"

lemma with_modes_simps [simp]:
  "with_modes s [] = s" "world (with_modes s ms) = world s"
  "with_modes (with_modes s [m]) ms = with_modes s (m # ms)"
  "with_chain (with_modes s ms) h c = with_modes (with_chain s h c) ms"
  by (auto simp: with_modes_def with_chain_def)

text \<open>A block that does not extend the head is dropped; one that the database accepts becomes the head.\<close>

lemma deliver_one:
  assumes "chainHandler (world s) = Some h"
  shows "previous b \<noteq> head_id B (chain h) \<Longrightarrow>
      handle_blocks (node_peers B net) ((b, sync_mode) # bs) s =
      handle_blocks (node_peers B net) bs (with_modes s [sync_mode])"
    and "previous b = head_id B (chain h) \<Longrightarrow> push_block B b (chain h) = (c, Inr ()) \<Longrightarrow> head_id B c = block_id b \<Longrightarrow>
      handle_blocks (node_peers B net) ((b, sync_mode) # bs) s =
      handle_blocks (node_peers B net) bs (with_modes (with_chain s h c) [sync_mode])"
  using assms
  by (cases s; simp add: handle_block_def node_peers_def run_effect_def receive_block_def push_next_def getChain_def
      with_chain_def with_modes_def Let_def)+

text \<open>The blocks considered: those of the peer's chain, and any that follow none of them.\<close>

definition of_chain :: "('id, 'trx) chain_db \<Rightarrow> (nat \<Rightarrow> ('id, 'trx) signed_block) \<Rightarrow> ('id, 'trx) signed_block \<Rightarrow> bool" where
  "of_chain peer blk b \<longleftrightarrow> (\<exists>n. 0 < n \<and> n \<le> head_num peer \<and> b = blk n)"


text \<open>How far a list of blocks brings a chain with \<open>m\<close> blocks: each next block counts when it comes.\<close>

definition reached :: "nat \<Rightarrow> (nat \<Rightarrow> 'b) \<Rightarrow> 'b list \<Rightarrow> nat \<Rightarrow> nat" where
  "reached N blk bs m = fold (\<lambda>b h. if h < N \<and> b = blk (Suc h) then Suc h else h) bs m"

lemma reached_simps [simp]:
  "reached N blk [] m = m"
  "reached N blk (b # bs) m = reached N blk bs (if m < N \<and> b = blk (Suc m) then Suc m else m)"
  by (simp_all add: reached_def)





section \<open>The block that both chains have\<close>

text \<open>What of our chain above the common part the peer has never seen.\<close>

definition unknown_above :: "('id, 'trx) chain_db \<Rightarrow> ('id, 'trx) chain_db \<Rightarrow> nat \<Rightarrow> bool" where
  "unknown_above ours peer f \<longleftrightarrow> (\<forall>n. f < n \<and> n \<le> head_num ours \<longrightarrow> \<not> is_known_block peer (main_id ours n))"

lemma num_main_id_u32:
  assumes "main_chain_ok db" "0 < n" "n \<le> head_num db"
  shows "unat (num_from_id db (main_id db n)) = n"
  using num_chain_id_at [OF assms(1,3)] assms(2) by (simp add: chain_id_at_def)

lemma find_rev_greatest:
  fixes ns :: "nat list"
  shows "sorted_wrt (<) ns \<Longrightarrow> find (\<lambda>n. n \<le> f) (rev ns) = Some n \<Longrightarrow> \<forall>k \<in> set ns. k \<le> f \<longrightarrow> k \<le> n"
  by (induction ns rule: rev_induct) (auto simp: sorted_wrt_append split: if_splits)

lemma common_block_found:
  assumes serves: "peer_serves peer blk" and agree: "agree_to ours peer f" and unknown: "unknown_above ours peer f"
    and low: "unat (max 1 (last_non_undoable_block_num ours)) \<le> f"
  shows "\<exists>ns n. get_blockchain_synopsis ndebug ours (zero_id ours) 0 = Some (Inr (map (main_id ours) ns)) \<and>
    last_known_block peer (map (main_id ours) ns) = Inr (chain_id_at peer n) \<and> 0 < n \<and> n \<in> set ns \<and> n \<le> f \<and>
    (\<forall>k \<in> set ns. k \<le> f \<longrightarrow> k \<le> n) \<and> last ns = head_num ours"
proof -
  let ?lo = "unat (max 1 (last_non_undoable_block_num ours))"
  have ok: "main_chain_ok ours" and pok: "main_chain_ok peer" and zero: "zero_id ours = zero_id peer"
    and num: "num_from_id ours = num_from_id peer" and f: "f \<le> head_num ours" "f \<le> head_num peer"
    and same: "\<And>n. 0 < n \<Longrightarrow> n \<le> f \<Longrightarrow> main_id ours n = main_id peer n"
    and lnu: "last_non_undoable_block_num ours \<le> head_block_num ours"
    using serves agree by (auto simp: peer_serves_def agree_to_def)
  have lo: "1 \<le> ?lo" by (simp add: max_def word_le_nat_alt)
  then have nz: "head_block_num ours \<noteq> 0" using low f(1) by auto
  have "head_num ours + unat 0 < 2 ^ 32 - 1" using ok by (simp add: main_chain_ok_def)
  from get_blockchain_synopsis_whole_chain [OF ok nz lnu this, of ndebug] obtain ns where
    syn: "get_blockchain_synopsis ndebug ours (zero_id ours) 0 = Some (Inr (map (main_id ours) ns))"
    and good: "good_synopsis ours (max 1 (last_non_undoable_block_num ours)) (head_block_num ours) 0 (map (main_id ours) ns)"
    and ns: "ns \<noteq> []" "last ns = head_num ours" "\<forall>n \<in> set ns. ?lo \<le> n \<and> n \<le> head_num ours" by auto
  let ?ours = "\<lambda>b. b = zero_id peer \<or> (is_known_block peer b \<and> b = main_id peer (unat (num_from_id peer b)))"
  have num_n: "unat (num_from_id peer (main_id ours n)) = n" if "n \<in> set ns" for n
    using num_main_id_u32 [OF ok, of n] ns(3) lo that by (auto simp: num)
  have known: "is_known_block peer (main_id ours n) \<longleftrightarrow> n \<le> f" if "n \<in> set ns" for n
    using that unknown serves ns(3) lo f same [of n] by (fastforce simp: unknown_above_def peer_serves_def not_le)
  have P: "?ours (main_id ours n) \<longleftrightarrow> n \<le> f" if n: "n \<in> set ns" for n
  proof -
    have "0 < n" using ns(3) lo n by auto
    moreover have "main_id ours n \<noteq> zero_id peer"
      using num_n [OF n] pok calculation by (auto simp: main_chain_ok_def)
    ultimately show ?thesis using known [OF n] num_n [OF n] same [of n] by auto
  qed
  have range: "\<forall>b \<in> set (map (main_id ours) ns). is_known_block peer b \<longrightarrow>
      0 < num_from_id peer b \<and> num_from_id peer b \<le> head_block_num peer"
    using known num_n ns(3) lo f by (auto simp: word_less_nat_alt word_le_nat_alt)
  have find: "find ?ours (map (main_id ours) xs) = map_option (main_id ours) (find (\<lambda>n. n \<le> f) xs)"
    if "set xs \<subseteq> set ns" for xs
    using that by (induction xs) (auto simp: P)
  have "num_from_id peer (main_id ours (hd ns)) = max 1 (last_non_undoable_block_num ours)"
    using good ns(1) by (simp add: good_synopsis_def hd_map num)
  then have "hd ns = ?lo" using num_n [of "hd ns"] ns(1) by simp
  then have "hd ns \<le> f" using low by simp
  moreover have "hd ns \<in> set (rev ns)" using ns(1) by simp
  ultimately obtain n where n: "find (\<lambda>n. n \<le> f) (rev ns) = Some n"
    using find_None_iff [of "\<lambda>n. n \<le> f" "rev ns"] by blast
  then have in_range: "n \<in> set ns" "n \<le> f" by (auto simp: find_Some_iff) (metis nth_mem set_rev length_rev)
  have "map (unat \<circ> num_from_id ours) (map (main_id ours) ns) = ns"
    using num_n by (auto simp: num intro: map_idI)
  moreover have "sorted_wrt (<) (map (num_from_id ours) (map (main_id ours) ns))"
    using good by (simp add: good_synopsis_def)
  then have "sorted_wrt (<) (map (unat \<circ> num_from_id ours) (map (main_id ours) ns))"
    by (simp add: sorted_wrt_map word_less_nat_alt)
  ultimately have "sorted_wrt (<) ns" by simp
  then have latest: "\<forall>k \<in> set ns. k \<le> f \<longrightarrow> k \<le> n" using n by (rule find_rev_greatest)
  have "find ?ours (rev (map (main_id ours) ns)) = Some (main_id ours n)"
    using find [of "rev ns"] n by (simp add: rev_map)
  then have "last_known_block peer (map (main_id ours) ns) = Inr (main_id ours n)"
    using last_known_block_spec [OF pok range] ns(1) by simp
  moreover have "0 < n" using in_range ns(3) lo by auto
  ultimately show ?thesis using syn in_range latest ns(2) same [of n] by (auto simp: chain_id_at_def)
qed

section \<open>Catching up\<close>






section \<open>A node on a fork of its own\<close>

lemma deliver_none:
  assumes "chainHandler (world s) = Some h" "\<forall>(b, sync_mode) \<in> set ds. previous b \<noteq> head_id B (chain h)"
  shows "handle_blocks (node_peers B net) ds s = (with_modes s (map snd ds), Inr ())"
  using assms
proof (induction ds arbitrary: s)
  case (Cons d ds)
  obtain b sync_mode where d: "d = (b, sync_mode)" by (cases d)
  have "chainHandler (world (with_modes s [sync_mode])) = Some h" using Cons.prems(1) by simp
  from Cons.IH [OF this] Cons.prems(2) deliver_one(1) [OF Cons.prems(1), of b B net sync_mode ds] show ?case
    by (simp add: d)
qed simp

text \<open>
  C5. A node that has left the peer's main chain never comes back. Its synopsis does lead to the latest of
  the blocks it names that both chains have, and the peer's delegate answers with the ids from there; but
  of the blocks of the peer's chain, whichever are delivered, in whatever order and however often, none
  changes anything: the node drops every block whose predecessor is not its own head.
\<close>

theorem forked_node_stays:
  fixes s :: "('c, 'p, 'o, 'lib, 'w) node p2p_state"
  assumes "peer_serves peer blk" and "chainHandler (world s) = Some h"
    and "agree_to (as_chain_db B (chain h)) peer f" and "unknown_above (as_chain_db B (chain h)) peer f"
    and "unat (max 1 (last_non_undoable_block_num (as_chain_db B (chain h)))) \<le> f"
    and "f < head_num (as_chain_db B (chain h))"
    and "head_id B (chain h) = main_id (as_chain_db B (chain h)) (head_num (as_chain_db B (chain h)))"
    and "\<forall>(b, sync_mode) \<in> set deliveries. of_chain peer blk b"
  shows "(\<exists>ns n remaining.
      get_blockchain_synopsis ndebug (as_chain_db B (chain h)) (zero_id peer) 0 =
        Some (Inr (map (main_id (as_chain_db B (chain h))) ns)) \<and>
      n \<in> set ns \<and> 0 < n \<and> n \<le> f \<and> (\<forall>k \<in> set ns. k \<le> f \<longrightarrow> k \<le> n) \<and>
      get_block_ids peer (map (main_id (as_chain_db B (chain h))) ns) limit =
        Inr (map (main_id peer) [n ..< n + min (unat limit) (head_num peer + 1 - n)], remaining)) \<and>
    handle_blocks (node_peers B net) deliveries s =
      (s\<lparr>syncing := syncing s \<and> list_all snd deliveries\<rparr>, Inr ())"
proof -
  let ?ours = "as_chain_db B (chain h)"
  have zero: "zero_id ?ours = zero_id peer" using assms(3) by (simp add: agree_to_def)
  obtain ns n where syn: "get_blockchain_synopsis ndebug ?ours (zero_id ?ours) 0 = Some (Inr (map (main_id ?ours) ns))"
    "last_known_block peer (map (main_id ?ours) ns) = Inr (chain_id_at peer n)" "0 < n" "n \<in> set ns" "n \<le> f"
    "\<forall>k \<in> set ns. k \<le> f \<longrightarrow> k \<le> n"
    using common_block_found [OF assms(1,3,4,5)] by blast
  have f: "n \<le> head_num peer" using assms(3) syn(5) by (auto simp: agree_to_def)
  with syn(3) have "0 < head_num peer" and n: "max 1 n = n" by auto
  from peer_ids [OF assms(1) this(1) syn(2) f, of limit] have ids: "\<exists>remaining.
      get_block_ids peer (map (main_id ?ours) ns) limit =
        Inr (map (main_id peer) [n ..< n + min (unat limit) (head_num peer + 1 - n)], remaining)"
    unfolding n by blast
  have head: "\<not> is_known_block peer (head_id B (chain h))" "head_id B (chain h) \<noteq> zero_id peer"
  proof -
    show "\<not> is_known_block peer (head_id B (chain h))" using assms(4,6,7) by (simp add: unknown_above_def)
    have ok: "main_chain_ok ?ours" "num_from_id ?ours = num_from_id peer"
      using assms(3) by (simp_all add: agree_to_def)
    then have "unat (num_from_id peer (head_id B (chain h))) = head_num ?ours"
      using num_main_id_u32 [OF ok(1), of "head_num ?ours"] assms(6,7) by simp
    with ok zero assms(6) show "head_id B (chain h) \<noteq> zero_id peer" by (auto simp: main_chain_ok_def)
  qed
  have "previous b \<noteq> head_id B (chain h)" if "of_chain peer blk b" for b
  proof -
    obtain j where j: "0 < j" "j \<le> head_num peer" "b = blk j" using \<open>of_chain peer blk b\<close> unfolding of_chain_def by blast
    then have "previous b = chain_id_at peer (j - 1)" using assms(1) by (simp add: peer_serves_def)
    moreover have "chain_id_at peer (j - 1) = zero_id peer \<or> is_known_block peer (chain_id_at peer (j - 1))"
      using assms(1) j by (auto simp: peer_serves_def chain_id_at_def)
    ultimately show ?thesis using head by metis
  qed
  then have none: "\<forall>(b, sync_mode) \<in> set deliveries. previous b \<noteq> head_id B (chain h)" using assms(8) by auto
  have "with_modes s (map snd deliveries) = s\<lparr>syncing := syncing s \<and> list_all snd deliveries\<rparr>"
    by (simp add: with_modes_def list.pred_map)
  with deliver_none [OF assms(2) none] syn ids show ?thesis unfolding zero by metis
qed

section \<open>A peer with five blocks\<close>

definition sync_block :: "u32 \<Rightarrow> (u32 \<times> nat, nat) signed_block" where
  "sync_block n = \<lparr>previous = (n - 1, 0), block_id = (n, 0), timestamp = 3 * n, transactions = []\<rparr>"

definition sync_peer :: "(u32 \<times> nat, nat) chain_db" where
  "sync_peer = sample_db\<lparr>
     is_known_block := (\<lambda>b. 0 < fst b \<and> fst b \<le> 5 \<and> snd b = 0),
     fetch_block_by_id := (\<lambda>b. if 0 < fst b \<and> fst b \<le> 5 \<and> snd b = 0 then Some (sync_block (fst b)) else None)\<rparr>"



definition forked_db :: "(u32 \<times> nat, nat) chain_db" where
  "forked_db = sync_peer\<lparr>head_block_id := (5, 1),
     get_block_id_for_num := (\<lambda>n. if 0 < n \<and> n \<le> 5 then Inr (n, if n \<le> 3 then 0 else 1)
                                  else Inl (FcException ''no block''))\<rparr>"

definition forked_blocks :: "(sample_tables, u32 \<times> nat, nat) block_ops" where
  "forked_blocks = \<lparr>head_id = (\<lambda>c. (5, 1)), push_block = (\<lambda>b c. (c, Inr ())), as_chain_db = (\<lambda>c. forked_db)\<rparr>"

abbreviation sync_start :: "(sample_tables, contract_index, nat, path, nat) node p2p_state" where
  "sync_start \<equiv> \<lparr>syncing = True, world = sample_node\<rparr>"

lemma main_id_sync_peer: "0 < n \<Longrightarrow> n \<le> 5 \<Longrightarrow> main_id sync_peer n = (of_nat n, 0)"
  by (auto simp: main_id_def sync_peer_def sample_db_def word_le_nat_alt word_less_nat_alt unat_of_nat)

lemma chain_id_at_sync_peer: "n \<le> 5 \<Longrightarrow> chain_id_at sync_peer n = (of_nat n, 0)"
  using main_id_sync_peer [of n] by (auto simp: chain_id_at_def sync_peer_def sample_db_def)

lemma sync_peer_head: "head_num sync_peer = 5"
  by (simp add: sync_peer_def sample_db_def)

lemma sync_peer_serves: "peer_serves sync_peer (\<lambda>n. sync_block (of_nat n))"
proof -
  have "main_chain_ok sync_peer" by (auto simp: main_chain_ok_def sync_peer_def sample_db_def)
  moreover have "is_known_block sync_peer (main_id sync_peer n) \<and>
      fetch_block_by_id sync_peer (main_id sync_peer n) = Some (sync_block (of_nat n)) \<and>
      block_id (sync_block (of_nat n)) = main_id sync_peer n \<and>
      previous (sync_block (of_nat n)) = chain_id_at sync_peer (n - 1)"
    if "0 < n" "n \<le> 5" for n
  proof -
    have "0 < (of_nat n :: u32)" "(of_nat n :: u32) \<le> 5"
      using that by (simp_all add: word_less_nat_alt word_le_nat_alt unat_of_nat)
    then show ?thesis
      using that by (simp add: main_id_sync_peer chain_id_at_sync_peer)
        (simp add: sync_peer_def sync_block_def of_nat_diff)
  qed
  ultimately show ?thesis by (simp add: peer_serves_def sync_peer_head)
qed




abbreviation test_block :: "nat \<Rightarrow> (u32 \<times> nat, nat) signed_block" where
  "test_block n \<equiv> sync_block (of_nat n)"


lemma sync_start_chain: "chainHandler (world sync_start) = Some sample_chain"
  by (simp add: sample_node_def)

lemma test_block_of_chain: "0 < n \<Longrightarrow> n \<le> 5 \<Longrightarrow> of_chain sync_peer test_block (test_block n)"
  unfolding of_chain_def sync_peer_head by blast











theorem forked_node_stays_witness:
  "(\<exists>ns. get_blockchain_synopsis True forked_db (0, 0) 0 = Some (Inr (map (main_id forked_db) ns)) \<and> (\<exists>n \<in> set ns. n \<le> 3)) \<and>
   handle_blocks (node_peers forked_blocks sample_net) [(test_block 4, True), (test_block 5, False), (test_block 4, True)]
     sync_start = (\<lparr>syncing = False, world = sample_node\<rparr>, Inr ())"
proof -
  have ids: "main_id forked_db n = (of_nat n, if n \<le> 3 then 0 else 1)" if "0 < n" "n \<le> 5" for n
    using that by (auto simp: main_id_def forked_db_def word_le_nat_alt word_less_nat_alt unat_of_nat)
  have "main_chain_ok forked_db" by (auto simp: main_chain_ok_def forked_db_def sync_peer_def sample_db_def)
  then have agree: "agree_to forked_db sync_peer 3"
    using ids main_id_sync_peer by (auto simp: agree_to_def forked_db_def sync_peer_def sample_db_def)
  have head: "head_num forked_db = 5" by (simp add: forked_db_def sync_peer_def sample_db_def)
  have unknown: "unknown_above forked_db sync_peer 3"
    using ids by (auto simp: unknown_above_def head sync_peer_def)
  have chain_db: "as_chain_db forked_blocks c = forked_db" "head_id forked_blocks c = (5, 1)" for c
    by (simp_all add: forked_blocks_def)
  have "unat (max 1 (last_non_undoable_block_num forked_db)) \<le> 3"
    by (simp add: forked_db_def sync_peer_def sample_db_def max_def word_le_nat_alt)
  moreover have "\<forall>(b, sync_mode) \<in> set [(test_block 4, True), (test_block 5, False), (test_block 4, True)].
      of_chain sync_peer test_block b"
    using test_block_of_chain [of 4] test_block_of_chain [of 5] by simp
  moreover have "zero_id sync_peer = (0, 0)" by (simp add: sync_peer_def sample_db_def)
  moreover have head_id: "head_id forked_blocks (chain sample_chain) =
      main_id (as_chain_db forked_blocks (chain sample_chain)) (head_num (as_chain_db forked_blocks (chain sample_chain)))"
    using ids [of 5] by (simp add: chain_db head)
  ultimately have result: "(\<exists>ns n remaining.
      get_blockchain_synopsis True forked_db (0, 0) 0 = Some (Inr (map (main_id forked_db) ns)) \<and>
      n \<in> set ns \<and> 0 < n \<and> n \<le> 3 \<and> (\<forall>k \<in> set ns. k \<le> 3 \<longrightarrow> k \<le> n) \<and>
      get_block_ids sync_peer (map (main_id forked_db) ns) 100 =
        Inr (map (main_id sync_peer) [n ..< n + min (unat (100::u32)) (head_num sync_peer + 1 - n)], remaining)) \<and>
    handle_blocks (node_peers forked_blocks sample_net) [(test_block 4, True), (test_block 5, False), (test_block 4, True)]
      sync_start = (sync_start\<lparr>syncing := syncing sync_start \<and>
        list_all snd [(test_block 4, True), (test_block 5, False), (test_block 4, True)]\<rparr>, Inr ())"
    using forked_node_stays [OF sync_peer_serves sync_start_chain _ _ _ _ head_id, of 3
        "[(test_block 4, True), (test_block 5, False), (test_block 4, True)]" True 100 sample_net]
      agree unknown unfolding chain_db head by simp
  then have "\<exists>ns. get_blockchain_synopsis True forked_db (0, 0) 0 = Some (Inr (map (main_id forked_db) ns)) \<and>
      (\<exists>n \<in> set ns. n \<le> 3)" by blast
  moreover have "sync_start\<lparr>syncing := syncing sync_start \<and>
      list_all snd [(test_block 4, True), (test_block 5, False), (test_block 4, True)]\<rparr> =
      \<lparr>syncing = False, world = sample_node\<rparr>" by simp
  ultimately show ?thesis using result by metis
qed

end
