(* ===== verification/Node_Lifetime.thy ===== *)
theory Node_Lifetime
  imports Contract_Node
begin

text \<open>
  Construction and destruction: the P2P handler's constructor and destructor, the chain handler's
  destructor, the implicit destruction of the contract node's members, \<open>main\<close>, and the life of the
  contract records across runs of the program. Closing databases and the network node is the business of
  their libraries, an argument; an exception that leaves a destructor ends the program.
\<close>

section \<open>The P2P handler\<close>

record 'w p2p_setup =
  node_load_configuration :: "path \<Rightarrow> 'w effect"
  node_set_delegate :: "'w effect"
  node_close :: "'w effect"

definition p2p_config_path :: "path \<Rightarrow> path" where
  "p2p_config_path home = path_append home [''.config'', ''Follow My Vote'', ''PollarisBackend'', ''p2p'']"

definition new_P2pHandler :: "'w p2p_setup \<Rightarrow> path \<Rightarrow> 'w effect" where
  "new_P2pHandler N home w =
     (case node_load_configuration N (p2p_config_path home) w of
        (w1, Inl e) \<Rightarrow> (w1, Inl e)
      | (w1, Inr _) \<Rightarrow> node_set_delegate N w1)"

definition in_destructor :: "'a \<times> unit res \<Rightarrow> 'a \<times> unit res" where
  "in_destructor r = (fst r, case snd r of Inl e \<Rightarrow> Inl (Terminate ''exception in a destructor'') | Inr _ \<Rightarrow> Inr ())"

definition destroy_P2pHandler :: "'w p2p_setup \<Rightarrow> 'w effect" where
  "destroy_P2pHandler N w = in_destructor (node_close N w)"

section \<open>The chain handler\<close>

text \<open>Closing the chain database, and writing the records to the directory of the persistence database
  and closing it.\<close>

record ('c, 'p, 'w) close_ops =
  close_chain :: "'c \<Rightarrow> 'w effect"
  flush_persistence :: "'p \<Rightarrow> path \<Rightarrow> 'w effect"
  close_persistence :: "'p \<Rightarrow> 'w effect"

definition destroy_ChainHandler :: "('c, 'p, 'w) close_ops \<Rightarrow> ('c, 'p) chain_handler \<Rightarrow> 'w effect" where
  "destroy_ChainHandler K h w =
     in_destructor
       (case close_chain K (chain h) w of
          (w1, Inl e) \<Rightarrow> (w1, Inl e)
        | (w1, Inr _) \<Rightarrow>
            (case flush_persistence K (persistence h) (persistencePath h) w1 of
               (w2, Inl e) \<Rightarrow> (w2, Inl e)
             | (w2, Inr _) \<Rightarrow> close_persistence K (persistence h) w2))"

section \<open>The contract node\<close>

definition new_ContractNode :: "'w \<Rightarrow> ('c, 'p, 'o, 'lib, 'w) node" where
  "new_ContractNode w = \<lparr>chainHandler = None, monitor_heap = (\<lambda>_. new_TableMonitor), next_monitor = 0,
     contractMonitors = [], connections = Map.empty, loadedLibraries = [], log_lines = [], node_world = w\<rparr>"

text \<open>
  What the destructor of the contract node does, in order. Its members are destroyed in the reverse order
  of their declaration: the connections and the promise, which do nothing of note, then the loaded
  libraries, the contract monitors, the signal set, the P2P handler and the chain handler. The standard
  leaves open in which order a container destroys its elements; here it is the order of iteration.
\<close>

datatype teardown_event =
  Library_unloaded path | Monitor_destroyed nat | Signals_cancelled | P2p_closed | Chain_closed

definition unload_libraries ::
  "('c, 'lib, 'w) os \<Rightarrow> ('c, 'p, 'o, 'lib, 'w) node \<Rightarrow> teardown_event list \<times> ('c, 'p, 'o, 'lib, 'w) node" where
  "unload_libraries os n =
     (map (\<lambda>(p, lib). Library_unloaded p) (loadedLibraries n),
      n\<lparr>node_world := fold (\<lambda>(p, lib). close_library os lib) (loadedLibraries n) (node_world n),
        loadedLibraries := []\<rparr>)"

fun destroy_monitors ::
  "'c db_ops \<Rightarrow> 'o monitor_heap \<Rightarrow> contract_monitor list \<Rightarrow> 'c \<Rightarrow> (teardown_event list \<times> 'c) \<times> unit res" where
  "destroy_monitors ops heap [] c = (([], c), Inr ())"
| "destroy_monitors ops heap (cm # cms) c =
     (case destroy_MultiTableMonitor ops heap cm c of
        (c1, Inl e) \<Rightarrow> (([], c1), Inl e)
      | (c1, Inr _) \<Rightarrow>
          (let ((t, c2), r) = destroy_monitors ops heap cms c1 in ((Monitor_destroyed (monitor_id cm) # t, c2), r)))"

text \<open>\<open>has_p2p\<close> says whether the P2P handler was ever created. The network node acts on the node's world.\<close>

definition destroy_ContractNode ::
  "'c db_ops \<Rightarrow> ('c, 'lib, 'w) os \<Rightarrow> ('c, 'p, 'w) close_ops \<Rightarrow> 'w p2p_setup \<Rightarrow> bool \<Rightarrow>
   ('c, 'p, 'o, 'lib, 'w) node \<Rightarrow> (teardown_event list \<times> 'w) \<times> unit res" where
  "destroy_ContractNode ops os K N has_p2p n =
     (let (unloads, n1) = unload_libraries os n in
      case chainHandler n1 of
        None \<Rightarrow> ((unloads @ [Signals_cancelled], node_world n1), Inr ())
      | Some h \<Rightarrow>
          (case destroy_monitors ops (monitor_heap n1) (contractMonitors n1) (chain h) of
             ((t, c), Inl e) \<Rightarrow> ((unloads @ t, node_world n1), Inl e)
           | ((t, c), Inr _) \<Rightarrow>
               (let h1 = h\<lparr>chain := c\<rparr>;
                    (w2, r2) = (if has_p2p then destroy_P2pHandler N (node_world n1) else (node_world n1, Inr ()));
                    t2 = unloads @ t @ [Signals_cancelled] @ (if has_p2p then [P2p_closed] else [])
                in case r2 of
                     Inl e \<Rightarrow> ((t2, w2), Inl e)
                   | Inr _ \<Rightarrow>
                       (let (w3, r3) = destroy_ChainHandler K h1 w2 in ((t2 @ [Chain_closed], w3), r3)))))"

lemma in_destructor_ok: "snd r = Inr () \<Longrightarrow> in_destructor r = (fst r, Inr ())"
  by (simp add: in_destructor_def)

text \<open>Monitors of which every table monitor is attached, none of them twice.\<close>

definition monitors_attached ::
  "('c \<Rightarrow> ((u8 \<times> u8) \<times> nat) list) \<Rightarrow> 'o monitor_heap \<Rightarrow> contract_monitor list \<Rightarrow> 'c \<Rightarrow> bool" where
  "monitors_attached attached heap cms c \<longleftrightarrow>
     distinct (map snd (attached c)) \<and> distinct (concat (map monitors cms)) \<and>
     (\<forall>cm \<in> set cms. \<forall>p \<in> set (monitors cm). ((spaceId cm, typeId (heap p)), p) \<in> set (attached c))"

lemma destroy_monitors_spec:
  assumes "host_ok ops attached refuses"
  shows "monitors_attached attached heap cms c \<Longrightarrow>
    \<exists>c'. destroy_monitors ops heap cms c = ((map (\<lambda>cm. Monitor_destroyed (monitor_id cm)) cms, c'), Inr ()) \<and>
      attached c' = filter (\<lambda>e. snd e \<notin> set (concat (map monitors cms))) (attached c)"
proof (induction cms arbitrary: c)
  case (Cons cm cms)
  have "distinct (map snd (attached c))" "distinct (monitors cm)"
    "\<forall>p \<in> set (monitors cm). ((spaceId cm, typeId (heap p)), p) \<in> set (attached c)"
    using Cons.prems by (simp_all add: monitors_attached_def)
  from delete_monitors_spec [OF assms this] obtain c1 where c1:
    "destroy_MultiTableMonitor ops heap cm c = (c1, Inr ())"
    "attached c1 = filter (\<lambda>e. snd e \<notin> set (monitors cm)) (attached c)"
    by (auto simp: destroy_MultiTableMonitor_def)
  have "monitors_attached attached heap cms c1"
    using Cons.prems c1(2) by (fastforce simp: monitors_attached_def distinct_map_filter)
  from Cons.IH [OF this] c1 show ?case by (auto intro: filter_cong)
qed simp

text \<open>
  C14. Shutting down: when the databases and the network close without an error, destroying the node
  unloads every plugin library, then takes each contract monitor's table monitors out of the chain
  database, those and no others, then closes the network node and last the databases, and ends
  normally. So all plugin code is gone while the database that holds the plugins' indexes is still in use.
\<close>

theorem destroy_ContractNode_order:
  assumes "host_ok ops attached refuses" and "chainHandler n = Some h"
    and "monitors_attached attached (monitor_heap n) (contractMonitors n) (chain h)"
    and "\<forall>w. snd (node_close N w) = Inr ()" and "\<forall>c w. snd (close_chain K c w) = Inr ()"
    and "\<forall>p path w. snd (flush_persistence K p path w) = Inr ()" and "\<forall>p w. snd (close_persistence K p w) = Inr ()"
  shows "\<exists>c. destroy_ContractNode ops os K N True n =
      ((map (\<lambda>(p, lib). Library_unloaded p) (loadedLibraries n) @
        map (\<lambda>cm. Monitor_destroyed (monitor_id cm)) (contractMonitors n) @
        [Signals_cancelled, P2p_closed, Chain_closed],
        fst (destroy_ChainHandler K (h\<lparr>chain := c\<rparr>)
          (fst (node_close N (fold (\<lambda>(p, lib). close_library os lib) (loadedLibraries n) (node_world n)))))), Inr ()) \<and>
    attached c = filter (\<lambda>e. snd e \<notin> set (concat (map monitors (contractMonitors n)))) (attached (chain h))"
proof -
  obtain c where c: "destroy_monitors ops (monitor_heap n) (contractMonitors n) (chain h) =
      ((map (\<lambda>cm. Monitor_destroyed (monitor_id cm)) (contractMonitors n), c), Inr ())"
    "attached c = filter (\<lambda>e. snd e \<notin> set (concat (map monitors (contractMonitors n)))) (attached (chain h))"
    using destroy_monitors_spec [OF assms(1,3)] by blast
  have "snd (destroy_ChainHandler K h' w) = Inr ()" for h' w
    using assms(5-7) by (auto simp: destroy_ChainHandler_def in_destructor_def split: prod.split sum.split) (metis snd_conv Inl_Inr_False)+
  then have handler: "destroy_ChainHandler K h' w = (fst (destroy_ChainHandler K h' w), Inr ())" for h' w
    by (metis prod.collapse)
  have p2p: "destroy_P2pHandler N w = (fst (node_close N w), Inr ())" for w
    using assms(4) by (simp add: destroy_P2pHandler_def in_destructor_ok)
  show ?thesis
    using assms(2) c
    by (auto simp: destroy_ContractNode_def unload_libraries_def p2p Let_def intro!: exI [of _ c])
      (subst handler, simp)
qed

definition sample_close :: "(sample_tables, contract_index, nat) close_ops" where
  "sample_close = \<lparr>close_chain = (\<lambda>c w. (w + 1, Inr ())), flush_persistence = (\<lambda>p path w. (w + 10, Inr ())),
     close_persistence = (\<lambda>p w. (w + 100, Inr ()))\<rparr>"

definition sample_p2p :: "nat p2p_setup" where
  "sample_p2p = \<lparr>node_load_configuration = (\<lambda>path w. (w, Inr ())), node_set_delegate = (\<lambda>w. (w, Inr ())),
     node_close = (\<lambda>w. (w + 1000, Inr ()))\<rparr>"

definition watched_chain :: "(sample_tables, contract_index) chain_handler" where
  "watched_chain = sample_chain\<lparr>chain := \<lparr>all_indexes = [(10, 0), (10, 1), (11, 0)], next_address = 10,
     attached_monitors = [((10, 0), 4), ((10, 1), 5), ((11, 0), 9)]\<rparr>\<rparr>"

definition watched_node :: "(sample_tables, contract_index, nat, path, nat) node" where
  "watched_node = sample_node\<lparr>chainHandler := Some watched_chain,
     monitor_heap := (\<lambda>p. new_TableMonitor\<lparr>typeId := if p = 5 then 1 else 0\<rparr>),
     contractMonitors := [\<lparr>monitor_id = 3, contractName = ''voting'', spaceId = 10, monitors = [4, 5]\<rparr>],
     loadedLibraries := [(plugin_path ''voting.so'', plugin_path ''voting.so'')]\<rparr>"

theorem destroy_ContractNode_order_witness:
  "\<exists>w. destroy_ContractNode sample_db_ops sample_os sample_close sample_p2p True watched_node =
    (([Library_unloaded (plugin_path ''voting.so''), Monitor_destroyed 3, Signals_cancelled, P2p_closed, Chain_closed], w), Inr ())"
proof -
  have "chainHandler watched_node = Some watched_chain" by (simp add: watched_node_def)
  moreover have "monitors_attached attached_monitors (monitor_heap watched_node) (contractMonitors watched_node) (chain watched_chain)"
    by (simp add: monitors_attached_def watched_node_def watched_chain_def)
  ultimately show ?thesis
    using destroy_ContractNode_order [OF sample_db_ops_ok, of watched_node watched_chain sample_p2p sample_close sample_os]
    by (auto simp: sample_p2p_def sample_close_def) (auto simp: watched_node_def)
qed

section \<open>The program\<close>

definition on_world :: "'w effect \<Rightarrow> ('c, 'p, 'o, 'lib, 'w) node effect" where
  "on_world f n = (let (w, r) = f (node_world n) in (n\<lparr>node_world := w\<rparr>, r))"

text \<open>Whether \<open>run\<close> comes to create the P2P handler.\<close>

definition p2p_created ::
  "('c, 'p, 'w, 'g, 'h) start_env \<Rightarrow> 'p record_ops \<Rightarrow> 'c db_ops \<Rightarrow> ('c, 'lib, 'w) os \<Rightarrow>
   ('c, 'p, 'o, 'lib, 'w) node effect \<Rightarrow> ('c, 'p, 'o, 'lib, 'w) node \<Rightarrow> bool" where
  "p2p_created E P ops os new_p2p n =
     (case start_chain E P ops os n of
        (n1, Inl _) \<Rightarrow> False
      | (n1, Inr _) \<Rightarrow> chainHandler n1 \<noteq> None \<and> snd (new_p2p n1) = Inr ())"

text \<open>How the program ends: with an exit status, by \<open>std::terminate\<close> on an exception that nothing
  catches or that leaves a destructor, or not yet.\<close>

datatype program_end = Exits int | Terminates cpp_error | Runs

definition finish ::
  "'c db_ops \<Rightarrow> ('c, 'lib, 'w) os \<Rightarrow> ('c, 'p, 'w) close_ops \<Rightarrow> 'w p2p_setup \<Rightarrow> bool \<Rightarrow>
   ('c, 'p, 'o, 'lib, 'w) node p2p_state \<Rightarrow> int \<Rightarrow> program_end" where
  "finish ops os K N has_p2p s status =
     (case snd (destroy_ContractNode ops os K N has_p2p (world s)) of
        Inl e \<Rightarrow> Terminates e | Inr _ \<Rightarrow> Exits status)"

text \<open>The events \<open>es\<close> are all that happen before the wait for the exit promise returns, or so far: a
  second request to exit may still come in after the first one has readied the promise.\<close>

definition main_program ::
  "(bool list \<Rightarrow> bool option) \<Rightarrow> ('c, 'p, 'w, 'g, 'h) start_env \<Rightarrow> 'p record_ops \<Rightarrow> 'c db_ops \<Rightarrow> ('c, 'lib, 'w) os \<Rightarrow> ('c, 'p, 'w) close_ops \<Rightarrow>
   ('c, 'id, 'trx) block_ops \<Rightarrow> ('id, 'trx, ('c, 'p, 'o, 'lib, 'w) node) p2p_peers \<Rightarrow> 'w p2p_setup \<Rightarrow>
   ('c, 'obj, 'o) db_reader \<Rightarrow> ('id, 'trx) node_event list \<Rightarrow> 'w \<Rightarrow> program_end" where
  "main_program promise E P ops os K B net N R es w =
     (let new_p2p = on_world (new_P2pHandler N (home_path E)); n = new_ContractNode w
      in case run E P ops os B net new_p2p n of
           Returned s k \<Rightarrow> finish ops os K N (p2p_created E P ops os new_p2p n) s k
         | Escaped s e \<Rightarrow> Terminates e
         | Waiting s \<Rightarrow>
             (let st = node_steps P ops os R B net es
                    (waitForExit \<lparr>p2p = s, signalSet = False, pending_waits = 0, exitPromise = None, tasks = []\<rparr>)
              in case exit_status promise st of None \<Rightarrow> Runs | Some k \<Rightarrow> finish ops os K N True (p2p st) k))"

lemma run_cases:
  "case run E P ops os B net new_p2p n of
     Returned s k \<Rightarrow> k = 1 | Escaped s e \<Rightarrow> \<not> is_fc_exception e | Waiting s \<Rightarrow> True"
  by (auto simp: run_def fc_guard_def split: prod.split sum.split)

lemma delete_monitors_error: "delete_monitors ops space heap ps d = (d', Inl e) \<Longrightarrow> \<not> is_fc_exception e"
  by (induction ps arbitrary: d) (auto split: prod.splits sum.splits)

lemma destroy_monitors_error: "destroy_monitors ops heap cms c = (t, Inl e) \<Longrightarrow> \<not> is_fc_exception e"
  by (induction cms arbitrary: c t)
    (auto simp: destroy_MultiTableMonitor_def Let_def dest: delete_monitors_error split: prod.splits sum.splits)

lemma in_destructor_error: "in_destructor r = (s, Inl e) \<Longrightarrow> \<not> is_fc_exception e"
  by (auto simp: in_destructor_def split: sum.splits)

lemma destroy_ContractNode_error:
  "snd (destroy_ContractNode ops os K N has_p2p n) = Inl e \<Longrightarrow> \<not> is_fc_exception e"
  by (auto simp: destroy_ContractNode_def destroy_P2pHandler_def destroy_ChainHandler_def unload_libraries_def Let_def
      dest: destroy_monitors_error in_destructor_error split: prod.splits sum.splits option.splits if_splits)

text \<open>
  C13. The exit status: the program ends with 0 exactly when the node came to wait, the exit promise gave
  it the value of an interrupt or of \<open>exit(false)\<close>, one of the events that asked it to exit, and its
  destruction did not throw; the only other status is 1, for a startup that returned and for a promise
  that gave the value of an \<open>exit(true)\<close>; it still runs exactly when the node waits and nothing has asked
  it to exit; and no FC exception ever terminates it.
\<close>

theorem main_exit_status:
  fixes E :: "('c, 'p, 'w, 'g, 'h) start_env" and B :: "('c, 'id, 'trx) block_ops"
    and R :: "('c, 'obj, 'o) db_reader" and os :: "('c, 'lib, 'w) os" and P :: "'p record_ops" and ops :: "'c db_ops"
    and net :: "('id, 'trx, ('c, 'p, 'o, 'lib, 'w) node) p2p_peers" and N :: "'w p2p_setup" and w :: 'w
  assumes "\<forall>signal. Signal Operation_aborted signal \<notin> set es" and "promise_ok promise"
  defines "started \<equiv> run E P ops os B net (on_world (new_P2pHandler N (home_path E)))
    (new_ContractNode w :: ('c, 'p, 'o, 'lib, 'w) node)"
  shows "case main_program promise E P ops os K B net N R es w of
      Exits status \<Rightarrow> (status = 0 \<or> status = 1) \<and>
        (status = 0 \<longleftrightarrow> (\<exists>s. started = Waiting s \<and> promise (List.map_filter asks_exit es) = Some False)) \<and>
        (case started of Returned s k \<Rightarrow> True | Escaped s e \<Rightarrow> False
         | Waiting s \<Rightarrow> \<exists>e \<in> set es. asks_exit e = Some (status = 1))
    | Terminates e \<Rightarrow> \<not> is_fc_exception e
    | Runs \<Rightarrow> (\<exists>s. started = Waiting s) \<and> List.map_filter asks_exit es = []"
proof (cases started)
  case (Returned s k)
  with run_cases [of E P ops os B net "on_world (new_P2pHandler N (home_path E))" "new_ContractNode w"]
  have "k = 1" by (simp add: started_def)
  with Returned show ?thesis
    by (auto simp: main_program_def started_def finish_def Let_def dest: destroy_ContractNode_error split: sum.split)
next
  case (Escaped s e)
  with run_cases [of E P ops os B net "on_world (new_P2pHandler N (home_path E))" "new_ContractNode w"]
  show ?thesis by (simp add: main_program_def started_def)
next
  case (Waiting s)
  let ?st = "waitForExit \<lparr>p2p = s, signalSet = False, pending_waits = 0, exitPromise = None, tasks = []\<rparr>"
  let ?vs = "List.map_filter asks_exit es"
  have "exitPromise (node_steps P ops os R B net es ?st) = Some ([] @ ?vs)"
    using node_steps_waiting [OF assms(1), of ?st "[]" P ops os R B net] by (simp add: waitForExit_def)
  then have status: "exit_status promise (node_steps P ops os R B net es ?st) =
      map_option (\<lambda>b. if b then 1 else 0) (promise ?vs)" by (simp add: exit_status_def)
  have main: "main_program promise E P ops os K B net N R es w =
      (case promise ?vs of None \<Rightarrow> Runs
       | Some b \<Rightarrow> finish ops os K N True (p2p (node_steps P ops os R B net es ?st)) (if b then 1 else 0))"
    using Waiting unfolding started_def by (simp add: main_program_def Let_def status split: option.split)
  note p = promise_okD [OF assms(2), of ?vs]
  show ?thesis
  proof (cases "promise ?vs")
    case None
    with main p(1) Waiting show ?thesis by simp
  next
    case (Some b)
    then have "\<exists>e \<in> set es. asks_exit e = Some b" using p(2) asks_exit_in by blast
    with main Some Waiting show ?thesis
      by (cases b) (auto simp: finish_def dest: destroy_ContractNode_error split: sum.split)
  qed
qed

lemma sample_new_p2p: "on_world (new_P2pHandler sample_p2p home) = (\<lambda>n. (n, Inr ()))"
  by (simp add: fun_eq_iff on_world_def new_P2pHandler_def sample_p2p_def)

theorem main_exit_status_witness:
  "case main_program last_value sample_start contract_index_ops sample_db_ops bare_os sample_close sample_blocks
      sample_net sample_p2p sample_reader [Signal No_error SIGUSR2, Exit True, Signal No_error SIGINT] 0 of
     Exits status \<Rightarrow> status = 0 | Terminates e \<Rightarrow> \<not> is_fc_exception e | Runs \<Rightarrow> False"
proof -
  let ?es = "[Signal No_error SIGUSR2, Exit True, Signal No_error SIGINT] :: (u32 \<times> nat, nat) node_event list"
  have "\<forall>signal. Signal Operation_aborted signal \<notin> set ?es" by simp
  note result = main_exit_status [OF this value_promises_ok(2), of sample_start contract_index_ops sample_db_ops
      bare_os sample_blocks sample_net sample_p2p 0 sample_close sample_reader]
  have exits: "List.map_filter asks_exit ?es = [True, False]" "last_value [True, False] = Some False"
    by (simp_all add: List.map_filter_simps last_value_def)
  obtain s where "run sample_start contract_index_ops sample_db_ops bare_os sample_blocks sample_net
      (\<lambda>n. (n, Inr ())) (new_ContractNode 0) = Waiting s"
    using sample_run by blast
  with result show ?thesis by (simp add: sample_new_p2p exits split: program_end.splits)
qed

section \<open>Contract records across runs\<close>

text \<open>A run of the program, as far as the contract records go: the chain handler opens the persistence
  database, contracts are initialized, and the handler is destroyed, or the process dies without that.\<close>

datatype session_end = Clean_exit | Crash

definition session ::
  "('c, 'p, 'w, 'g, 'h) start_env \<Rightarrow> 'p record_ops \<Rightarrow> ('w \<Rightarrow> path \<Rightarrow> 'p res) \<Rightarrow> ('c, 'p, 'w) close_ops \<Rightarrow>
   (string \<times> ('c \<Rightarrow> u8 \<Rightarrow> 'c \<times> bool res)) list \<times> session_end \<Rightarrow> 'w \<Rightarrow> 'w" where
  "session E P load K s w =
     (case initialize_handler (load w) (new_ChainHandler E) of
        Inl e \<Rightarrow> w
      | Inr h \<Rightarrow>
          (case snd s of
             Crash \<Rightarrow> w
           | Clean_exit \<Rightarrow> fst (destroy_ChainHandler K (run_calls P (fst s) h) w)))"

text \<open>The persistence database on disk: a flush that returns has stored the records under its path, one
  that throws has left them alone, and closing databases changes no records.\<close>

definition store_ok ::
  "('w \<Rightarrow> path \<Rightarrow> 'p res) \<Rightarrow> ('c, 'p, 'w) close_ops \<Rightarrow> path \<Rightarrow> bool" where
  "store_ok load K path \<longleftrightarrow>
     (\<forall>c w. load (fst (close_chain K c w)) path = load w path) \<and>
     (\<forall>p w. load (fst (close_persistence K p w)) path = load w path) \<and>
     (\<forall>p w. case flush_persistence K p path w of
        (w', Inr _) \<Rightarrow> load w' path = Inr p | (w', Inl _) \<Rightarrow> load w' path = load w path)"

lemma store_ok_flush:
  assumes "store_ok load K path"
  shows "case flush_persistence K p path w of
    (w', Inr _) \<Rightarrow> load w' path = Inr p | (w', Inl _) \<Rightarrow> load w' path = load w path"
  using assms by (simp add: store_ok_def)

lemma destroy_ChainHandler_stores:
  assumes "store_ok load K (persistencePath h)"
  shows "load (fst (destroy_ChainHandler K h w)) (persistencePath h) \<in>
    {load w (persistencePath h), Inr (persistence h)}"
proof -
  obtain w1 r1 where w1: "close_chain K (chain h) w = (w1, r1)" by fastforce
  then have load1: "load w1 (persistencePath h) = load w (persistencePath h)"
    using assms by (metis fst_conv store_ok_def)
  obtain w2 r2 where w2: "flush_persistence K (persistence h) (persistencePath h) w1 = (w2, r2)" by fastforce
  then have load2: "load w2 (persistencePath h) = (case r2 of Inl _ \<Rightarrow> load w1 (persistencePath h) | Inr _ \<Rightarrow> Inr (persistence h))"
    using store_ok_flush [OF assms, where p = "persistence h" and w = w1] by (cases r2) simp_all
  have load3: "load (fst (close_persistence K p w)) (persistencePath h) = load w (persistencePath h)" for p w
    using assms by (simp add: store_ok_def)
  show ?thesis
    using w1 w2 load1 load2 load3
    by (cases r1; cases r2) (simp_all add: destroy_ChainHandler_def in_destructor_def)
qed

lemma run_calls_path: "persistencePath (run_calls P calls h) = persistencePath h"
proof (induction calls arbitrary: h)
  case (Cons call calls)
  obtain n f where "call = (n, f)" by (cases call)
  moreover have "basePath (fst (initializeContract P n f h)) = basePath h"
    by (auto simp: initializeContract_def Let_def split: prod.split sum.split)
  ultimately show ?case using Cons by (simp add: persistencePath_def)
qed simp

lemma session_keeps_records:
  assumes "store_ok load K (persistencePath (new_ChainHandler E))"
    and "load w (persistencePath (new_ChainHandler E)) = Inr ix" and "index_ok ix"
  shows "\<exists>ix' new. load (session E contract_index_ops load K s w) (persistencePath (new_ChainHandler E)) = Inr ix' \<and>
    index_ok ix' \<and> index_records ix' = index_records ix @ new"
proof (cases "snd s")
  case Crash
  with assms show ?thesis by (simp add: session_def initialize_handler_def)
next
  case Clean_exit
  let ?opened = "(new_ChainHandler E)\<lparr>persistence := ix\<rparr>"
  let ?h = "run_calls contract_index_ops (fst s) ?opened"
  have init: "initialize_handler (load w) (new_ChainHandler E) = Inr ?opened"
    using assms(2) by (simp add: initialize_handler_def)
  have path: "persistencePath ?h = persistencePath (new_ChainHandler E)"
    unfolding run_calls_path by (simp add: persistencePath_def)
  have "handler_ok index_records index_ok ?opened"
    using assms(3) by (simp add: handler_ok_def new_ChainHandler_def)
  from contract_store.run_calls_ok [OF this, of "fst s"] obtain new where
    h: "index_ok (persistence ?h)" "index_records (persistence ?h) = index_records ix @ new"
    by (auto simp: handler_ok_def)
  have "load (fst (destroy_ChainHandler K ?h w)) (persistencePath ?h) \<in> {load w (persistencePath ?h), Inr (persistence ?h)}"
    using assms(1) by (intro destroy_ChainHandler_stores) (simp add: path)
  moreover have "session E contract_index_ops load K s w = fst (destroy_ChainHandler K ?h w)"
    by (simp add: session_def init Clean_exit)
  ultimately have "load (session E contract_index_ops load K s w) (persistencePath (new_ChainHandler E)) \<in>
      {Inr ix, Inr (persistence ?h)}"
    using assms(2) by (simp add: path)
  then show ?thesis using assms(3) h by auto
qed

lemma clean_session_stores:
  assumes "store_ok load K (persistencePath (new_ChainHandler E))"
    and "\<forall>c w. snd (close_chain K c w) = Inr ()" and "\<forall>p path w. snd (flush_persistence K p path w) = Inr ()"
    and "load w (persistencePath (new_ChainHandler E)) = Inr ix"
  shows "load (session E P load K (calls, Clean_exit) w) (persistencePath (new_ChainHandler E)) =
    Inr (persistence (run_calls P calls ((new_ChainHandler E)\<lparr>persistence := ix\<rparr>)))"
proof -
  let ?path = "persistencePath (new_ChainHandler E)"
  let ?h = "run_calls P calls ((new_ChainHandler E)\<lparr>persistence := ix\<rparr>)"
  have path: "persistencePath ?h = ?path" unfolding run_calls_path by (simp add: persistencePath_def)
  obtain w1 where w1: "close_chain K (chain ?h) w = (w1, Inr ())"
    using assms(2) by (metis prod.collapse)
  obtain w2 where w2: "flush_persistence K (persistence ?h) ?path w1 = (w2, Inr ())"
    using assms(3) by (metis prod.collapse)
  have "load w2 ?path = Inr (persistence ?h)"
    using store_ok_flush [OF assms(1), where p = "persistence ?h" and w = w1] w2 by simp
  moreover have "load (fst (close_persistence K p w)) ?path = load w ?path" for p w
    using assms(1) by (simp add: store_ok_def)
  ultimately show ?thesis
    using w1 w2 assms(4) by (simp add: session_def initialize_handler_def destroy_ChainHandler_def in_destructor_def path)
qed

lemma sessions_keep_records:
  fixes E :: "('c, contract_index, 'w, 'g, 'h) start_env"
  assumes "store_ok load K (persistencePath (new_ChainHandler E))"
  shows "load w (persistencePath (new_ChainHandler E)) = Inr ix \<Longrightarrow> index_ok ix \<Longrightarrow>
    \<exists>ix' new. load (fold (session E contract_index_ops load K) ss w) (persistencePath (new_ChainHandler E)) = Inr ix' \<and>
      index_ok ix' \<and> index_records ix' = index_records ix @ new"
proof (induction ss arbitrary: w ix)
  case (Cons s ss)
  from session_keeps_records [OF assms Cons.prems, of s] obtain ix1 new1 where
    "load (session E contract_index_ops load K s w) (persistencePath (new_ChainHandler E)) = Inr ix1"
    "index_ok ix1" "index_records ix1 = index_records ix @ new1" by blast
  with Cons.IH [OF this(1,2)] show ?case by auto
qed simp

text \<open>
  C12. A contract keeps its object space across restarts: take a run of the program that initializes any
  contracts, however these behave, and exits cleanly, with databases that close and flush. Then every
  contract with a record at its end has that record, and with it its space, in the next run that starts,
  whatever runs came in between, whatever they initialized and whether they exited cleanly or died.
\<close>

theorem contract_space_survives_restarts:
  fixes E :: "('c, contract_index, 'w, 'g, 'h) start_env"
    and sessions :: "((string \<times> ('c \<Rightarrow> u8 \<Rightarrow> 'c \<times> bool res)) list \<times> session_end) list"
  assumes "store_ok load K (persistencePath (new_ChainHandler E))"
    and "\<forall>c w. snd (close_chain K c w) = Inr ()" and "\<forall>p path w. snd (flush_persistence K p path w) = Inr ()"
    and "load w (persistencePath (new_ChainHandler E)) = Inr ix" and "index_ok ix"
    and "r \<in> set (index_records (persistence (run_calls contract_index_ops calls ((new_ChainHandler E)\<lparr>persistence := ix\<rparr>))))"
  defines "w' \<equiv> fold (session E contract_index_ops load K) ((calls, Clean_exit) # sessions) w"
  shows "\<exists>h. initialize_handler (load w') (new_ChainHandler E) = Inr h \<and> handler_ok index_records index_ok h \<and>
    contract_record_for contract_index_ops (persistence h) (cr_name r) = Inr (persistence h, r)"
proof -
  let ?h = "run_calls contract_index_ops calls ((new_ChainHandler E)\<lparr>persistence := ix\<rparr>)"
  have "handler_ok index_records index_ok ((new_ChainHandler E)\<lparr>persistence := ix\<rparr>)"
    using assms(5) by (simp add: handler_ok_def new_ChainHandler_def)
  from contract_store.run_calls_ok [OF this, of calls] have "index_ok (persistence ?h)"
    by (auto simp: handler_ok_def)
  from sessions_keep_records [OF assms(1) clean_session_stores [OF assms(1-4), where calls = calls] this, of sessions] obtain ix' new where
    ix': "load w' (persistencePath (new_ChainHandler E)) = Inr ix'" "index_ok ix'"
      "index_records ix' = index_records (persistence ?h) @ new"
    unfolding w'_def by auto
  then have "contract_record_for contract_index_ops ix' (cr_name r) = Inr (ix', r)"
    using assms(6) by (intro contract_store.record_for_known) auto
  with ix' show ?thesis by (simp add: initialize_handler_def handler_ok_def new_ChainHandler_def)
qed

definition disk_start :: "(sample_tables, contract_index, contract_index, unit, string) start_env" where
  "disk_start = \<lparr>home_path = Path [''home''],
     new_chain = \<lparr>all_indexes = [], next_address = 0, attached_monitors = []\<rparr>,
     new_persistence = \<lparr>next_number = 0, index_records = []\<rparr>,
     open_persistence = (\<lambda>p. Inr sample_index),
     open_database = (\<lambda>p genesis c fs. (c, fst (genesis fs), Inr ())),
     genesis_of = sample_env, get_files = (\<lambda>w. Map.empty), put_files = (\<lambda>fs w. w)\<rparr>"

definition disk_close :: "(sample_tables, contract_index, contract_index) close_ops" where
  "disk_close = \<lparr>close_chain = (\<lambda>c w. (w, Inr ())), flush_persistence = (\<lambda>p path w. (p, Inr ())),
     close_persistence = (\<lambda>p w. (w, Inr ()))\<rparr>"

definition disk_calls :: "(string \<times> (sample_tables \<Rightarrow> u8 \<Rightarrow> sample_tables \<times> bool res)) list" where
  "disk_calls = [(''oracle'', \<lambda>c s. (c, Inr True))]"

theorem contract_space_survives_restarts_witness:
  "\<exists>h. initialize_handler
        (\<lambda>path. Inr (fold (session disk_start contract_index_ops (\<lambda>w path. Inr w) disk_close)
          [(disk_calls, Clean_exit), ([(''bridge'', \<lambda>c s. (c, Inl BadCast))], Crash)] sample_index))
        (new_ChainHandler disk_start) = Inr h \<and>
      handler_ok index_records index_ok h \<and>
      contract_record_for contract_index_ops (persistence h) ''oracle'' =
        Inr (persistence h, \<lparr>id_number = 2, cr_name = ''oracle''\<rparr>)"
proof -
  have "store_ok (\<lambda>w path. Inr w) disk_close (persistencePath (new_ChainHandler disk_start))"
    "\<forall>c w. snd (close_chain disk_close c w) = Inr ()" "\<forall>p path w. snd (flush_persistence disk_close p path w) = Inr ()"
    by (simp_all add: store_ok_def disk_close_def)
  moreover have "\<lparr>id_number = 2, cr_name = ''oracle''\<rparr> \<in> set (index_records (persistence
      (run_calls contract_index_ops disk_calls ((new_ChainHandler disk_start)\<lparr>persistence := sample_index\<rparr>))))"
    by (simp add: disk_calls_def initializeContract_def contract_record_for_def contract_index_ops_def
        index_lower_bound_def index_create_def sample_index_def Let_def)
  ultimately show ?thesis
    using contract_space_survives_restarts [where load = "\<lambda>w path. Inr w" and K = disk_close and E = disk_start
        and w = sample_index and ix = sample_index and calls = disk_calls and
        r = "\<lparr>id_number = 2, cr_name = ''oracle''\<rparr>" and
        sessions = "[([(''bridge'', \<lambda>c s. (c, Inl BadCast))], Crash)]", OF _ _ _ refl sample_index_ok]
    by simp
qed

end
