(* ===== verification/Contract_Registry.thy ===== *)
theory Contract_Registry
  imports Chain_Handler
begin

text \<open>
  What the chain handler's contract registry promises (\<open>initializeContract\<close>, \<open>getSpaceId\<close> and
  \<open>getLoadedContracts\<close> in \<open>Modules/ChainHandler.hpp\<close> and \<open>.cpp\<close>), as a specification without databases,
  records, iterators and maps: a list of the names ever seen, whose positions are the spaces, and a set of
  the loaded names. Up to 246 names the detailed definitions refine it; the end of the theory is what
  happens beyond them.
\<close>

section \<open>The specification\<close>

record registry =
  reg_names :: "string list"
  reg_loaded :: "string set"

definition reg_position :: "registry \<Rightarrow> string \<Rightarrow> nat" where
  "reg_position reg name = length (takeWhile (\<lambda>n. n \<noteq> name) (reg_names reg))"

text \<open>The space of a name, known or about to be added.\<close>

definition reg_space :: "registry \<Rightarrow> string \<Rightarrow> u8" where
  "reg_space reg name = of_nat (10 + reg_position reg name)"

definition reg_initialize :: "string \<Rightarrow> bool \<Rightarrow> registry \<Rightarrow> registry" where
  "reg_initialize name loaded reg =
     \<lparr>reg_names = (if name \<in> set (reg_names reg) then reg_names reg else reg_names reg @ [name]),
      reg_loaded = (if loaded then insert name (reg_loaded reg) else reg_loaded reg)\<rparr>"

text \<open>The registry that a handler holds.\<close>

definition registry_of :: "('c, contract_index) chain_handler \<Rightarrow> registry" where
  "registry_of h = \<lparr>reg_names = map cr_name (index_records (persistence h)),
     reg_loaded = snd ` set (loadedContracts h)\<rparr>"

section \<open>Refinement\<close>

lemma position_nth:
  assumes "distinct xs" "i < length xs"
  shows "length (takeWhile (\<lambda>x. x \<noteq> xs ! i) xs) = i"
proof -
  have "takeWhile (\<lambda>x. x \<noteq> xs ! i) xs = take i xs"
    using assms by (intro takeWhile_eq_take_P_nth) (auto simp: nth_eq_iff_index_eq)
  then show ?thesis using assms(2) by simp
qed

lemma ucast_of_nat: "(ucast (of_nat n :: u64) :: u8) = of_nat n"
  by transfer simp

lemma record_space:
  assumes "index_ok (persistence h)" "r \<in> set (index_records (persistence h))"
  shows "contractObjectSpaceId r = reg_space (registry_of h) (cr_name r)"
proof -
  let ?L = "index_records (persistence h)"
  obtain i where i: "i < length ?L" "r = ?L ! i" using assms(2) by (auto simp: in_set_conv_nth)
  have "distinct (map cr_name ?L)" using assms(1) by (simp add: index_ok_def)
  then have "reg_position (registry_of h) (cr_name r) = i"
    using position_nth [of "map cr_name ?L" i] i by (simp add: reg_position_def registry_of_def)
  moreover have "contractObjectSpaceId r = of_nat (10 + i)"
    using index_ok_id [OF assms(1) i(1)] i(2) ucast_of_nat [of "10 + i"]
    by (simp add: contractObjectSpaceId_def FIRST_AVAILABLE_SPACE_ID_def)
  ultimately show ?thesis by (simp add: reg_space_def)
qed

lemma registry_queries:
  assumes "handler_ok index_records index_ok h"
  shows "getSpaceId h name = (if name \<in> reg_loaded (registry_of h) then Inr (reg_space (registry_of h) name)
      else Inl (FcAssert ''Could not find contract''))"
    and "map_find (getLoadedContracts h) k = Some name \<longleftrightarrow>
      name \<in> reg_loaded (registry_of h) \<and> k = reg_space (registry_of h) name"
proof -
  have ix: "index_ok (persistence h)" and ok: "map_ok (loadedContracts h)"
    using assms by (simp_all add: handler_ok_def)
  have entry: "n \<in> cr_name ` set (index_records (persistence h)) \<and> k = reg_space (registry_of h) n"
    if "(k, n) \<in> set (loadedContracts h)" for k n
    using assms that record_space [OF ix] by (force simp: handler_ok_def list_all_iff list_ex_iff)
  show "getSpaceId h name = (if name \<in> reg_loaded (registry_of h) then Inr (reg_space (registry_of h) name)
      else Inl (FcAssert ''Could not find contract''))"
  proof (cases "find (\<lambda>pair. snd pair = name) (loadedContracts h)")
    case None
    then have "name \<notin> snd ` set (loadedContracts h)" by (auto simp: find_None_iff)
    with None show ?thesis by (simp add: getSpaceId_def registry_of_def)
  next
    case (Some e)
    then have e: "(fst e, name) \<in> set (loadedContracts h)" by (auto simp: find_Some_iff)
    then have "name \<in> snd ` set (loadedContracts h)" by force
    with Some entry [OF e] show ?thesis by (simp add: getSpaceId_def registry_of_def)
  qed
  show "map_find (getLoadedContracts h) k = Some name \<longleftrightarrow>
      name \<in> reg_loaded (registry_of h) \<and> k = reg_space (registry_of h) name"
    using entry by (force simp: getLoadedContracts_def map_find_entry [OF ok] registry_of_def)
qed
text \<open>The record that \<open>initializeContract\<close> finds or makes has the space that the specification assigns.\<close>

lemma record_for_space:
  assumes "index_ok (persistence h)"
  obtains p r where "contract_record_for contract_index_ops (persistence h) name = Inr (p, r)" "index_ok p"
    "map cr_name (index_records p) = reg_names (reg_initialize name b (registry_of h))"
    "r \<in> set (index_records p)" "cr_name r = name" "contractObjectSpaceId r = reg_space (registry_of h) name"
proof (cases "name \<in> cr_name ` set (index_records (persistence h))")
  case True
  then obtain r where r: "r \<in> set (index_records (persistence h))" "name = cr_name r" by auto
  with assms True contract_store.record_for_known [OF assms r(1)] record_space [OF assms r(1)] show thesis
    by (intro that [of "persistence h" r]) (simp_all add: registry_of_def reg_initialize_def)
next
  case False
  from contract_store.record_for_new [OF assms this] obtain p r where
    p: "contract_record_for contract_index_ops (persistence h) name = Inr (p, r)" "index_ok p"
    "index_records p = index_records (persistence h) @ [r]" "cr_name r = name"
    "id_number r = of_nat (length (index_records (persistence h)))" by blast
  have "\<forall>n \<in> set (map cr_name (index_records (persistence h))). n \<noteq> name" using False by auto
  then have "takeWhile (\<lambda>n. n \<noteq> name) (map cr_name (index_records (persistence h))) = map cr_name (index_records (persistence h))"
    by (simp only: takeWhile_eq_all_conv)
  then have "reg_position (registry_of h) name = length (index_records (persistence h))"
    unfolding reg_position_def registry_of_def registry.simps by (simp only: length_map)
  then have "contractObjectSpaceId r = reg_space (registry_of h) name"
    using p(5) ucast_of_nat [of "10 + length (index_records (persistence h))"]
    by (simp add: contractObjectSpaceId_def FIRST_AVAILABLE_SPACE_ID_def reg_space_def)
  with p False show thesis
    by (intro that [of p r]) (auto simp: registry_of_def reg_initialize_def)
qed

lemma emplace_entries:
  assumes "map_ok m"
  shows "set (map_emplace k v m) = (if map_find m k = None then insert (k, v) (set m) else set m)"
proof -
  have "(a, b) \<in> set (map_emplace k v m) \<longleftrightarrow> (if map_find m k = None then (a, b) = (k, v) \<or> (a, b) \<in> set m else (a, b) \<in> set m)"
    for a b
    unfolding map_find_entry [OF assms, symmetric] map_find_entry [OF map_ok_emplace [OF assms], symmetric]
      map_find_emplace [OF assms]
    by (cases "map_find m k") auto
  then show ?thesis by (auto split: if_splits)
qed

text \<open>
  C17. The chain handler refines the registry, up to 246 names: \<open>initializeContract\<close> runs the
  initializer once, on the handler's chain and with the space that the registry assigns to the name (its
  position behind space 10, the next free one for a new name), returns or throws what the initializer
  does, and takes the registry's step; \<open>getSpaceId\<close> and the map of loaded contracts answer every name and
  every space as the registry does.
\<close>

theorem initializeContract_refines_registry:
  assumes "handler_ok index_records index_ok h"
    and "initializeContract contract_index_ops name f h = (h', r)"
    and "length (index_records (persistence h')) \<le> 246"
  shows "(chain h', r) = f (chain h) (of_nat (10 + reg_position (registry_of h) name)) \<and>
    registry_of h' = reg_initialize name (r = Inr True) (registry_of h) \<and>
    (\<forall>n. getSpaceId h' n = (if n \<in> reg_loaded (registry_of h') then Inr (reg_space (registry_of h') n)
      else Inl (FcAssert ''Could not find contract''))) \<and>
    (\<forall>k n. map_find (getLoadedContracts h') k = Some n \<longleftrightarrow>
      n \<in> reg_loaded (registry_of h') \<and> k = reg_space (registry_of h') n)"
proof -
  have ok': "handler_ok index_records index_ok h'"
    using contract_store.initializeContract_ok [OF assms(1), of name f] assms(2) by simp
  have ix: "index_ok (persistence h)" and m: "map_ok (loadedContracts h)"
    using assms(1) by (simp_all add: handler_ok_def)
  obtain p q where q: "contract_record_for contract_index_ops (persistence h) name = Inr (p, q)" "index_ok p"
    "map cr_name (index_records p) = reg_names (reg_initialize name (r = Inr True) (registry_of h))"
    "q \<in> set (index_records p)" "cr_name q = name" "contractObjectSpaceId q = reg_space (registry_of h) name"
    by (rule record_for_space [OF ix])
  obtain c v where f: "f (chain h) (contractObjectSpaceId q) = (c, v)" by fastforce
  have run: "chain h' = c" "r = v" "persistence h' = p"
    "loadedContracts h' = (if v = Inr True then map_emplace (contractObjectSpaceId q) name (loadedContracts h)
       else loadedContracts h)"
    using assms(2) q(1) f by (auto simp: initializeContract_def Let_def split: sum.splits if_splits)
  have "snd ` set (loadedContracts h') = reg_loaded (reg_initialize name (r = Inr True) (registry_of h))"
  proof (cases "v = Inr True")
    case True
    have "name \<in> snd ` set (loadedContracts h')"
    proof -
      obtain n where "map_find (loadedContracts h') (contractObjectSpaceId q) = Some n"
        using run(4) True map_find_emplace [OF m, of "contractObjectSpaceId q" name]
        by (cases "map_find (loadedContracts h) (contractObjectSpaceId q)") auto
      then have "(contractObjectSpaceId q, n) \<in> set (loadedContracts h')"
        using ok' by (simp add: map_find_entry handler_ok_def)
      moreover from this have "n = name" using loaded_entry [OF ok' assms(3)] q(4,5) run(3) by blast
      ultimately show ?thesis by force
    qed
    then show ?thesis
      using True run(2,4) emplace_entries [OF m, of "contractObjectSpaceId q" name]
      by (auto simp: reg_initialize_def registry_of_def split: if_splits)
  qed (use run in \<open>simp add: reg_initialize_def registry_of_def\<close>)
  then have "registry_of h' = reg_initialize name (r = Inr True) (registry_of h)"
    using q(3) run(3) by (simp add: registry_of_def)
  moreover have "(chain h', r) = f (chain h) (of_nat (10 + reg_position (registry_of h) name))"
    using f run(1,2) q(6) by (simp add: reg_space_def)
  ultimately show ?thesis using registry_queries [OF ok'] by blast
qed
theorem initializeContract_refines_registry_witness:
  "reg_names (registry_of sample_handler_after) = [''voting'', ''escrow'', ''oracle''] \<and>
   getSpaceId sample_handler_after ''oracle'' = Inr 12 \<and>
   getSpaceId sample_handler_after ''escrow'' = Inl (FcAssert ''Could not find contract'')"
  using initializeContract_refines_registry [OF sample_handler_ok sample_handler_after]
  by (simp add: registry_of_def reg_initialize_def reg_space_def reg_position_def sample_handler_after_def
      sample_handler_def sample_index_def)

section \<open>Beyond the bound\<close>

text \<open>A contract whose space is taken by another loaded contract is accepted by its initializer but is
  not added to the map, so that nothing finds it by its name.\<close>

lemma initializeContract_collides:
  assumes "handler_ok index_records index_ok h"
    and "name \<notin> reg_loaded (registry_of h)" and "other \<in> reg_loaded (registry_of h)"
    and "reg_space (registry_of h) other = reg_space (registry_of h) name"
    and "f (chain h) (reg_space (registry_of h) other) = (c, Inr True)"
  shows "\<exists>h1. initializeContract contract_index_ops name f h = (h1, Inr True) \<and> chain h1 = c \<and>
    getLoadedContracts h1 = getLoadedContracts h \<and>
    getSpaceId h1 name = Inl (FcAssert ''Could not find contract'')"
proof -
  have ix: "index_ok (persistence h)" and m: "map_ok (loadedContracts h)"
    using assms(1) by (simp_all add: handler_ok_def)
  obtain p q where q: "contract_record_for contract_index_ops (persistence h) name = Inr (p, q)"
    "contractObjectSpaceId q = reg_space (registry_of h) name"
    by (rule record_for_space [OF ix])
  have "map_find (loadedContracts h) (reg_space (registry_of h) other) = Some other"
    using registry_queries(2) [OF assms(1)] assms(3) by (simp add: getLoadedContracts_def)
  then have "map_find (map_emplace (reg_space (registry_of h) name) name (loadedContracts h)) = map_find (loadedContracts h)"
    using map_find_emplace [OF m] assms(4) by simp
  moreover have "map_emplace k v M = M" if "map_find M k \<noteq> None" "map_ok M" for k v and M :: "(u8, string) stdmap"
    using that
  proof (induction k v M rule: map_emplace.induct)
    case (2 k v a b M)
    have "\<not> k < a"
    proof
      assume "k < a"
      with "2.prems"(2) have "k \<notin> fst ` set ((a, b) # M)" by (auto simp: map_ok_Cons)
      then have "map_find ((a, b) # M) k = None" by (rule map_find_None [THEN iffD2])
      with "2.prems"(1) show False by contradiction
    qed
    with 2 show ?case by (auto simp: map_find_def map_ok_Cons split: if_splits)
  qed (simp add: map_find_def)
  ultimately have same: "map_emplace (reg_space (registry_of h) name) name (loadedContracts h) = loadedContracts h"
    using m \<open>map_find (loadedContracts h) (reg_space (registry_of h) other) = Some other\<close> assms(4) by simp
  have "find (\<lambda>pair. snd pair = name) (loadedContracts h) = None"
    using assms(2) by (force simp: find_None_iff registry_of_def)
  then show ?thesis
    using q assms(4,5) same by (simp add: initializeContract_def getLoadedContracts_def getSpaceId_def)
qed

end
