(* ===== verification/Node_Startup.thy ===== *)
theory Node_Startup
  imports Node_Lifetime Contract_Registry
begin

text \<open>
  What the node does with a directory of well-behaved contract libraries, from \<open>Modules/ContractNode.cpp\<close>
  and \<open>Modules/ChainHandler.cpp\<close>: every usable library is found, opened and registered, every contract
  that accepts is watched on its own space, and every other one is unloaded; at startup and again when a
  signal asks for a search.
\<close>

section \<open>Well-behaved libraries\<close>

text \<open>The name under which a library's contract is registered.\<close>

definition plugin_name :: "('c, 'lib, 'w) os \<Rightarrow> 'lib \<Rightarrow> string" where
  "plugin_name os lib = (case contractName_symbol os lib of Some (Some s) \<Rightarrow> s | _ \<Rightarrow> filename (location os lib))"

text \<open>A library with a fixed verdict on registration: it accepts, refuses, or throws a Boost exception.\<close>

definition steady :: "('c, 'lib, 'w) os \<Rightarrow> ('lib \<Rightarrow> bool res) \<Rightarrow> 'lib \<Rightarrow> bool" where
  "steady os verdict lib \<longleftrightarrow> contractName_symbol os lib \<noteq> Some None \<and>
     (\<exists>f. registerContract_symbol os lib = Some f \<and> (\<forall>c k. snd (f c k) = verdict lib)) \<and>
     (\<forall>e. verdict lib = Inl e \<longrightarrow> is_boost_exception e)"

text \<open>Every space can be monitored: no table of it is refused with an exception thrown by value.\<close>

definition monitorable :: "'d db_ops \<Rightarrow> (u8 \<times> u8 \<Rightarrow> cpp_error option) \<Rightarrow> bool" where
  "monitorable ops refuses \<longleftrightarrow>
     (\<forall>d k. \<exists>idxs. indexes_of ops d k = Inr idxs \<and> list_all (goes_on refuses) idxs)"

definition record_names :: "('c, contract_index) chain_handler \<Rightarrow> string set" where
  "record_names h = cr_name ` set (index_records (persistence h))"

text \<open>A contract monitor watches the contract of a name: under that name and in the space of its record.\<close>

definition watches :: "('c, contract_index) chain_handler \<Rightarrow> string \<Rightarrow> contract_monitor \<Rightarrow> bool" where
  "watches h name cm \<longleftrightarrow> contractName cm = name \<and>
     (\<exists>r \<in> set (index_records (persistence h)). cr_name r = name \<and> spaceId cm = contractObjectSpaceId r)"

lemma watches_mono:
  "watches h name cm \<Longrightarrow> set (index_records (persistence h)) \<subseteq> set (index_records (persistence h')) \<Longrightarrow>
   watches h' name cm"
  by (auto simp: watches_def)

text \<open>Records have distinct names, so a set of at most 246 names bounds their number.\<close>

lemma records_bound:
  assumes "handler_ok index_records index_ok h" "record_names h \<subseteq> A" "finite A" "card A \<le> 246"
  shows "length (index_records (persistence h)) \<le> 246"
proof -
  have "distinct (map cr_name (index_records (persistence h)))"
    using assms(1) by (simp add: handler_ok_def index_ok_def)
  then have "length (index_records (persistence h)) = card (record_names h)"
    by (metis distinct_card length_map list.set_map record_names_def)
  also have "\<dots> \<le> card A" by (rule card_mono [OF assms(3,2)])
  finally show ?thesis using assms(4) by simp
qed

lemma record_for_names:
  assumes "index_ok p"
  obtains p' r where "contract_record_for contract_index_ops p name = Inr (p', r)"
    "set (index_records p) \<subseteq> set (index_records p')"
    "cr_name ` set (index_records p') \<subseteq> insert name (cr_name ` set (index_records p))"
proof (cases "name \<in> cr_name ` set (index_records p)")
  case True
  then obtain r where "r \<in> set (index_records p)" "name = cr_name r" by auto
  with contract_store.record_for_known [OF assms] show thesis by (intro that [of p r]) auto
next
  case False
  from contract_store.record_for_new [OF assms this] obtain p' r where
    "contract_record_for contract_index_ops p name = Inr (p', r)" "index_records p' = index_records p @ [r]"
    "cr_name r = name" by blast
  then show thesis by (intro that [of p' r]) auto
qed

lemma initializeContract_steady:
  assumes "handler_ok index_records index_ok h" and "\<forall>c k. snd (f c k) = v"
  obtains h1 where "initializeContract contract_index_ops name f h = (h1, v)"
    "handler_ok index_records index_ok h1" "isOpen h1 = isOpen h"
    "set (index_records (persistence h)) \<subseteq> set (index_records (persistence h1))"
    "record_names h1 \<subseteq> insert name (record_names h)"
proof -
  have "index_ok (persistence h)" using assms(1) by (simp add: handler_ok_def)
  then obtain p r where p: "contract_record_for contract_index_ops (persistence h) name = Inr (p, r)"
    "set (index_records (persistence h)) \<subseteq> set (index_records p)"
    "cr_name ` set (index_records p) \<subseteq> insert name (cr_name ` set (index_records (persistence h)))"
    by (rule record_for_names)
  obtain c where c: "f (chain h) (contractObjectSpaceId r) = (c, v)"
    using assms(2) by (metis prod.collapse)
  let ?h1 = "fst (initializeContract contract_index_ops name f h)"
  have run: "initializeContract contract_index_ops name f h = (?h1, v)"
    "persistence ?h1 = p" "isOpen ?h1 = isOpen h"
    using p(1) c by (auto simp: initializeContract_def Let_def split: sum.splits)
  show thesis
    using contract_store.initializeContract_ok [OF assms(1), of name f] p run
    by (intro that [of ?h1]) (auto simp: record_names_def)
qed

section \<open>Initializing libraries\<close>

text \<open>A node whose chain handler keeps its invariant and records only contracts with names in \<open>A\<close>.\<close>

definition node_within :: "string set \<Rightarrow> ('c, contract_index, 'o, 'lib, 'w) node \<Rightarrow> ('c, contract_index) chain_handler \<Rightarrow> bool" where
  "node_within A n h \<longleftrightarrow> chainHandler n = Some h \<and> handler_ok index_records index_ok h \<and> record_names h \<subseteq> A"

text \<open>The accepted contracts add their monitors in order and the records only grow.\<close>

definition watched_since ::
  "('c, contract_index, 'o, 'lib, 'w) node \<Rightarrow> string list \<Rightarrow> ('c, contract_index, 'o, 'lib, 'w) node \<Rightarrow> bool" where
  "watched_since n names n' \<longleftrightarrow> (\<exists>h h' ms. chainHandler n = Some h \<and> chainHandler n' = Some h' \<and>
     isOpen h' = isOpen h \<and>
     set (index_records (persistence h)) \<subseteq> set (index_records (persistence h')) \<and>
     contractMonitors n' = contractMonitors n @ ms \<and> list_all2 (watches h') names ms)"

lemma watched_since_trans:
  assumes "watched_since n xs n1" "watched_since n1 ys n2"
  shows "watched_since n (xs @ ys) n2"
proof -
  obtain h h1 ms where 1: "chainHandler n = Some h" "chainHandler n1 = Some h1" "isOpen h1 = isOpen h"
    "set (index_records (persistence h)) \<subseteq> set (index_records (persistence h1))"
    "contractMonitors n1 = contractMonitors n @ ms" "list_all2 (watches h1) xs ms"
    using assms(1) unfolding watched_since_def by blast
  obtain h2 ms' where 2: "chainHandler n2 = Some h2" "isOpen h2 = isOpen h1"
    "set (index_records (persistence h1)) \<subseteq> set (index_records (persistence h2))"
    "contractMonitors n2 = contractMonitors n1 @ ms'" "list_all2 (watches h2) ys ms'"
    using assms(2) 1(2) unfolding watched_since_def by auto
  have "list_all2 (watches h2) xs ms"
    using 1(6) by (rule list_all2_mono) (rule watches_mono [OF _ 2(3)])
  then have "list_all2 (watches h2) (xs @ ys) (ms @ ms')" using 2(5) by (rule list_all2_appendI)
  moreover have "contractMonitors n2 = contractMonitors n @ (ms @ ms')" using 1(5) 2(4) by simp
  moreover have "isOpen h2 = isOpen h" using 1(3) 2(2) by simp
  ultimately show ?thesis
    using 1(1,4) 2(1,3) unfolding watched_since_def by blast
qed

lemma initializePlugin_try_eq:
  assumes "contractName_symbol os lib \<noteq> Some None" and "registerContract_symbol os lib = Some f"
    and "chainHandler n = Some h"
  shows "initializePlugin_try P ops os lib n =
    (case initializeContract P (plugin_name os lib) f h of
       (h1, Inl e) \<Rightarrow> (n\<lparr>chainHandler := Some h1\<rparr>, Inl e)
     | (h1, Inr False) \<Rightarrow> (n\<lparr>chainHandler := Some h1\<rparr>, Inr False)
     | (h1, Inr True) \<Rightarrow>
         (let i = next_monitor n;
              ((h2, heap), r) = observeContract_name ops i (plugin_name os lib) (h1, monitor_heap n);
              n' = n\<lparr>chainHandler := Some h2, monitor_heap := heap, next_monitor := Suc i\<rparr>
          in case r of
               Inl e \<Rightarrow> (n', Inl e)
             | Inr monitor \<Rightarrow>
                 (n'\<lparr>connections := (connections n)(i \<mapsto> (tableNames_symbol os lib, (plugin_name os lib))),
                     contractMonitors := contractMonitors n @ [monitor]\<rparr>, Inr True)))"
  using assms by (auto simp: initializePlugin_try_def plugin_name_def Let_def split: option.split)

lemma initializePlugin_steady:
  fixes n :: "('c, contract_index, 'o, 'lib, 'w) node"
  assumes "node_within A n h" and "steady os verdict lib" and "plugin_name os lib \<in> A"
    and "finite A" and "card A \<le> 246"
    and "host_ok ops attached refuses" and "monitorable ops refuses"
  shows "\<exists>n' h'. initializePlugin contract_index_ops ops os lib n = (n', Inr (verdict lib = Inr True)) \<and>
    node_within A n' h' \<and> loadedLibraries n' = loadedLibraries n \<and> node_world n' = node_world n \<and>
    watched_since n (if verdict lib = Inr True then [plugin_name os lib] else []) n'"
proof -
  let ?name = "plugin_name os lib"
  have h: "chainHandler n = Some h" "handler_ok index_records index_ok h" "record_names h \<subseteq> A"
    using assms(1) by (simp_all add: node_within_def)
  obtain f where f: "registerContract_symbol os lib = Some f" "\<forall>c k. snd (f c k) = verdict lib"
    and sym: "contractName_symbol os lib \<noteq> Some None"
    and boost: "\<And>e. verdict lib = Inl e \<Longrightarrow> is_boost_exception e"
    using assms(2) by (auto simp: steady_def)
  obtain h1 where h1: "initializeContract contract_index_ops ?name f h = (h1, verdict lib)"
    "handler_ok index_records index_ok h1" "isOpen h1 = isOpen h"
    "set (index_records (persistence h)) \<subseteq> set (index_records (persistence h1))"
    "record_names h1 \<subseteq> insert ?name (record_names h)"
    using initializeContract_steady [OF h(2) f(2), of ?name] by blast
  have A1: "record_names h1 \<subseteq> A" using h1(5) h(3) assms(3) by blast
  note try_eq = initializePlugin_try_eq [OF sym f(1) h(1), of contract_index_ops ops]
  show ?thesis
  proof (cases "verdict lib = Inr True")
    case False
    then have "initializePlugin contract_index_ops ops os lib n = (n\<lparr>chainHandler := Some h1\<rparr>, Inr False)"
      using boost h1(1) by (cases "verdict lib") (auto simp: initializePlugin_def try_eq)
    then show ?thesis
      using False h(1) h1 A1 by (auto simp: node_within_def watched_since_def)
  next
    case True
    have len: "length (index_records (persistence h1)) \<le> 246"
      by (rule records_bound [OF h1(2) A1 assms(4,5)])
    obtain r where r: "r \<in> set (index_records (persistence h1))" "cr_name r = ?name"
      "getSpaceId h1 ?name = Inr (contractObjectSpaceId r)"
      using initialized_space [OF h(2) h1(1) [unfolded True] len] by blast
    obtain idxs where "indexes_of ops (chain h1) (contractObjectSpaceId r) = Inr idxs" "list_all (goes_on refuses) idxs"
      using assms(7) unfolding monitorable_def by blast
    from MultiTableMonitor_complete [OF assms(6) this, of "next_monitor n" ?name "monitor_heap n"] obtain d heap ps where
      m: "MultiTableMonitor ops (next_monitor n) ?name (contractObjectSpaceId r) (chain h1) (monitor_heap n) =
        (d, heap, Inr \<lparr>monitor_id = next_monitor n, contractName = ?name, spaceId = contractObjectSpaceId r, monitors = ps\<rparr>)"
      by blast
    let ?cm = "\<lparr>monitor_id = next_monitor n, contractName = ?name, spaceId = contractObjectSpaceId r, monitors = ps\<rparr>"
    let ?n' = "n\<lparr>chainHandler := Some (h1\<lparr>chain := d\<rparr>), monitor_heap := heap, next_monitor := Suc (next_monitor n),
      connections := (connections n)(next_monitor n \<mapsto> (tableNames_symbol os lib, ?name)),
      contractMonitors := contractMonitors n @ [?cm]\<rparr>"
    have "initializePlugin contract_index_ops ops os lib n = (?n', Inr True)"
      using h1(1) True r(3) m by (simp add: initializePlugin_def try_eq observeContract_name_def observeContract_def Let_def)
    moreover have "node_within A ?n' (h1\<lparr>chain := d\<rparr>)"
      using h1(2) A1 by (simp add: node_within_def record_names_def)
    moreover have "watches (h1\<lparr>chain := d\<rparr>) ?name ?cm" using r by (auto simp: watches_def)
    then have "watched_since n [?name] ?n'" using h(1) h1(3,4) by (simp add: watched_since_def)
    ultimately show ?thesis using True by fastforce
  qed
qed
text \<open>Initializing the libraries at the given paths: the accepted contracts are watched, in order, and
  exactly the other libraries are closed and forgotten.\<close>

lemma initializePlugins_steady:
  fixes n :: "('c, contract_index, 'o, 'lib, 'w) node"
  assumes "finite A" and "card A \<le> 246" and "host_ok ops attached refuses" and "monitorable ops refuses"
  shows "node_within A n h \<Longrightarrow> map_ok (loadedLibraries n) \<Longrightarrow> distinct paths \<Longrightarrow>
    \<forall>p \<in> set paths. map_find (loadedLibraries n) p = Some (lib_at p) \<and> steady os verdict (lib_at p) \<and>
      plugin_name os (lib_at p) \<in> A \<Longrightarrow>
    \<exists>n' h'. initializePlugins contract_index_ops ops os paths n = (n', Inr ()) \<and> node_within A n' h' \<and>
      map_ok (loadedLibraries n') \<and>
      watched_since n (map (plugin_name os \<circ> lib_at) (filter (\<lambda>p. verdict (lib_at p) = Inr True) paths)) n' \<and>
      (\<forall>p. map_find (loadedLibraries n') p =
        (if p \<in> set paths \<and> verdict (lib_at p) \<noteq> Inr True then None else map_find (loadedLibraries n) p)) \<and>
      node_world n' = fold (close_library os) (map lib_at (filter (\<lambda>p. verdict (lib_at p) \<noteq> Inr True) paths)) (node_world n)"
proof (induction paths arbitrary: n h)
  case Nil
  then show ?case by (auto simp: node_within_def watched_since_def)
next
  case (Cons p ps)
  let ?lib = "lib_at p" and ?ok = "verdict (lib_at p) = Inr True"
  have p: "map_find (loadedLibraries n) p = Some ?lib" "steady os verdict ?lib" "plugin_name os ?lib \<in> A"
    using Cons.prems(4) by auto
  obtain n1 h1 where 1: "initializePlugin contract_index_ops ops os ?lib n = (n1, Inr ?ok)" "node_within A n1 h1"
    "loadedLibraries n1 = loadedLibraries n" "node_world n1 = node_world n"
    "watched_since n (if ?ok then [plugin_name os ?lib] else []) n1"
    using initializePlugin_steady [OF Cons.prems(1) p(2,3) assms] by blast
  let ?n2 = "if ?ok then n1 else n1\<lparr>node_world := close_library os ?lib (node_world n1),
    loadedLibraries := map_erase p (loadedLibraries n1)\<rparr>"
  have find2: "map_find (loadedLibraries ?n2) q = (if q = p \<and> \<not> ?ok then None else map_find (loadedLibraries n) q)" for q
    using 1(3) Cons.prems(2) by (simp add: map_find_erase)
  have 2: "node_within A ?n2 h1" "map_ok (loadedLibraries ?n2)"
    using 1(2,3) Cons.prems(2) by (auto simp: node_within_def)
  have since2: "watched_since n (if ?ok then [plugin_name os ?lib] else []) ?n2"
    using 1(5) by (cases ?ok) (simp_all add: watched_since_def)
  have rest: "\<forall>q \<in> set ps. map_find (loadedLibraries ?n2) q = Some (lib_at q) \<and> steady os verdict (lib_at q) \<and>
      plugin_name os (lib_at q) \<in> A"
  proof
    fix q
    assume q: "q \<in> set ps"
    with Cons.prems(3) have "q \<noteq> p" by auto
    then show "map_find (loadedLibraries ?n2) q = Some (lib_at q) \<and> steady os verdict (lib_at q) \<and>
        plugin_name os (lib_at q) \<in> A"
      using Cons.prems(4) q unfolding find2 by simp
  qed
  have dps: "distinct ps" using Cons.prems(3) by simp
  obtain n' h' where IH: "initializePlugins contract_index_ops ops os ps ?n2 = (n', Inr ())" "node_within A n' h'"
    "map_ok (loadedLibraries n')"
    "watched_since ?n2 (map (plugin_name os \<circ> lib_at) (filter (\<lambda>p. verdict (lib_at p) = Inr True) ps)) n'"
    "\<forall>q. map_find (loadedLibraries n') q =
      (if q \<in> set ps \<and> verdict (lib_at q) \<noteq> Inr True then None else map_find (loadedLibraries ?n2) q)"
    "node_world n' = fold (close_library os) (map lib_at (filter (\<lambda>p. verdict (lib_at p) \<noteq> Inr True) ps)) (node_world ?n2)"
    using Cons.IH [OF 2 dps rest] by blast
  have run: "initializePlugins contract_index_ops ops os (p # ps) n = (n', Inr ())"
    using p(1) 1(1) IH(1) by (cases ?ok) simp_all
  have since: "watched_since n (map (plugin_name os \<circ> lib_at) (filter (\<lambda>p. verdict (lib_at p) = Inr True) (p # ps))) n'"
    using watched_since_trans [OF since2 IH(4)] by (cases ?ok) simp_all
  have found: "map_find (loadedLibraries n') q = (if q \<in> set (p # ps) \<and> verdict (lib_at q) \<noteq> Inr True then None
      else map_find (loadedLibraries n) q)" for q
    unfolding IH(5) [rule_format] find2 by auto
  have world: "node_world n' = fold (close_library os)
      (map lib_at (filter (\<lambda>p. verdict (lib_at p) \<noteq> Inr True) (p # ps))) (node_world n)"
    using IH(6) 1(4) by (cases ?ok) simp_all
  show ?case
    using run IH(2,3) since found world by blast
qed

section \<open>Finding libraries\<close>

text \<open>A file system that does not change while libraries are opened and closed: opening a file has a fixed
  result, a system error if it fails, and a directory is missing or lists fixed files.\<close>

definition library_files :: "('c, 'lib, 'w) os \<Rightarrow> (path \<Rightarrow> 'lib res) \<Rightarrow> bool" where
  "library_files os opens \<longleftrightarrow> (\<forall>f w. snd (open_library os f w) = opens f) \<and>
     (\<forall>f e. opens f = Inl e \<longrightarrow> is_system_error e)"

definition plugin_dir :: "('c, 'lib, 'w) os \<Rightarrow> path \<Rightarrow> path list \<Rightarrow> bool" where
  "plugin_dir os dir files \<longleftrightarrow> distinct files \<and>
     (\<forall>w. \<exists>d. weakly_canonical os dir w = Inr d \<and>
        (is_directory os d w = Inr False \<and> files = [] \<or>
         is_directory os d w = Inr True \<and> directory_files os d w = Inr files))"

text \<open>The new libraries among the files: those with the right extension, not yet loaded, that open and
  have a contract in them.\<close>

definition new_libraries :: "('c, 'lib, 'w) os \<Rightarrow> (path \<Rightarrow> 'lib res) \<Rightarrow> (path, 'lib) stdmap \<Rightarrow> path list \<Rightarrow> path list" where
  "new_libraries os opens libs files = filter (\<lambda>f. wanted os libs f \<and> usable os (opens f)) files"

lemma loadPlugins_loop_opened:
  assumes "\<forall>f w. snd (open_library os f w) = opens f"
  shows "map_ok (loadedLibraries n) \<Longrightarrow> loadPlugins_loop os ps out n = (n', r) \<Longrightarrow>
    map_find (loadedLibraries n') p = Some lib \<Longrightarrow> map_find (loadedLibraries n) p = Some lib \<or> opens p = Inr lib"
proof (induction ps arbitrary: out n)
  case (Cons q ps)
  show ?case
  proof (cases "wanted os (loadedLibraries n) q")
    case False
    then have "loadPlugins_loop os (q # ps) out n = loadPlugins_loop os ps out n"
      unfolding wanted_def by (simp only: loadPlugins_loop.simps if_False)
    with Cons show ?thesis by simp
  next
    case True
    obtain n1 r1 where run: "loadPlugin os q n = (n1, r1)" by fastforce
    have "loads os n (if r1 = Inr True then [q] else []) n1"
      by (rule loadPlugin_loads [OF Cons.prems(1) run]) (use True in \<open>auto simp: wanted_def\<close>)
    then have ok1: "map_ok (loadedLibraries n1)" by (simp add: loads_def)
    have one: "map_find (loadedLibraries n) p = Some lib \<or> opens p = Inr lib"
      if "map_find (loadedLibraries n1) p = Some lib"
    proof (cases "open_library os q (node_world n)")
      case (Pair w o1)
      then have "o1 = opens q" using assms by (metis snd_conv)
      with Pair run that show ?thesis
        by (auto simp: loadPlugin_def split: sum.splits if_splits dest!: stdmap.emplace_cases [OF Cons.prems(1)])
    qed
    show ?thesis
    proof (cases r1)
      case (Inl e)
      with run True Cons.prems(2,3) one show ?thesis by (simp add: wanted_def)
    next
      case (Inr ok)
      then have "loadPlugins_loop os ps (if ok then out @ [q] else out) n1 = (n', r)"
        using run True Cons.prems(2) by (simp add: wanted_def)
      from Cons.IH [OF ok1 this Cons.prems(3)] one show ?thesis by blast
    qed
  qed
qed simp

lemma loadPlugins_dir:
  assumes "library_files os opens" "plugin_dir os dir files" "map_ok (loadedLibraries n)"
  shows "\<exists>n'. loadPlugins os dir n = (n', Inr (new_libraries os opens (loadedLibraries n) files)) \<and>
    loads os n (new_libraries os opens (loadedLibraries n) files) n' \<and>
    (\<forall>p lib. map_find (loadedLibraries n') p = Some lib \<longrightarrow> map_find (loadedLibraries n) p = Some lib \<or> opens p = Inr lib)"
proof -
  let ?new = "new_libraries os opens (loadedLibraries n) files"
  obtain d where d: "weakly_canonical os dir (node_world n) = Inr d"
    "is_directory os d (node_world n) = Inr False \<and> files = [] \<or>
     is_directory os d (node_world n) = Inr True \<and> directory_files os d (node_world n) = Inr files"
    using assms(2) unfolding plugin_dir_def by blast
  obtain n' r where run: "loadPlugins os dir n = (n', r)" by fastforce
  have "snd (loadPlugins_loop os files [] n) = Inr ?new"
    using loadPlugins_loop_complete [where os = os and opens = opens and files = files and n = n and out = "[]"] assms
    by (simp add: library_files_def plugin_dir_def new_libraries_def)
  then have r: "r = Inr ?new"
    using run d by (auto simp: loadPlugins_def new_libraries_def)
  have "loads os n ?new n'" using loadPlugins_loads [OF assms(3) run] r by auto
  moreover have "map_find (loadedLibraries n) p = Some lib \<or> opens p = Inr lib"
    if "map_find (loadedLibraries n') p = Some lib" for p lib
    using loadPlugins_loop_opened [OF _ assms(3), where opens = opens and ps = files and out = "[]" and n' = n' and
        r = r and p = p and lib = lib and os = os] assms(1) run d that
    by (auto simp: loadPlugins_def library_files_def)
  ultimately show ?thesis using run r by blast
qed

text \<open>The files in the two directories that a search looks into.\<close>

definition plugin_tree :: "('c, 'lib, 'w) os \<Rightarrow> path list \<Rightarrow> bool" where
  "plugin_tree os files \<longleftrightarrow> distinct files \<and>
     (\<exists>files1 files2. files = files1 @ files2 \<and>
        plugin_dir os (path_append (parent_path (program_location os)) [''plugins'']) files1 \<and>
        plugin_dir os (path_append (parent_path (program_location os))
          [''..'', ''lib'', stem os (program_location os), ''plugins'']) files2)"

lemma searchForPlugins_tree:
  assumes "library_files os opens" "plugin_tree os files" "map_ok (loadedLibraries n)"
  shows "\<exists>n'. searchForPlugins os (parent_path (program_location os)) n =
      (n', Inr (new_libraries os opens (loadedLibraries n) files)) \<and>
    loads os n (new_libraries os opens (loadedLibraries n) files) n' \<and>
    (\<forall>p lib. map_find (loadedLibraries n') p = Some lib \<longrightarrow> map_find (loadedLibraries n) p = Some lib \<or> opens p = Inr lib)"
proof -
  let ?bin = "parent_path (program_location os)"
  obtain files1 files2 where files: "files = files1 @ files2" "distinct (files1 @ files2)"
    and dirs: "plugin_dir os (path_append ?bin [''plugins'']) files1"
    "plugin_dir os (path_append ?bin [''..'', ''lib'', stem os (program_location os), ''plugins'']) files2"
    using assms(2) by (auto simp: plugin_tree_def)
  let ?new1 = "new_libraries os opens (loadedLibraries n) files1"
  obtain n1 where 1: "loadPlugins os (path_append ?bin [''plugins'']) n = (n1, Inr ?new1)" "loads os n ?new1 n1"
    "\<forall>p lib. map_find (loadedLibraries n1) p = Some lib \<longrightarrow> map_find (loadedLibraries n) p = Some lib \<or> opens p = Inr lib"
    using loadPlugins_dir [OF assms(1) dirs(1) assms(3)] by blast
  have ok1: "map_ok (loadedLibraries n1)" using 1(2) by (simp add: loads_def)
  let ?new2 = "new_libraries os opens (loadedLibraries n1) files2"
  obtain n2 where 2: "loadPlugins os (path_append ?bin [''..'', ''lib'', stem os (program_location os), ''plugins'']) n1 =
      (n2, Inr ?new2)" "loads os n1 ?new2 n2"
    "\<forall>p lib. map_find (loadedLibraries n2) p = Some lib \<longrightarrow> map_find (loadedLibraries n1) p = Some lib \<or> opens p = Inr lib"
    using loadPlugins_dir [OF assms(1) dirs(2) ok1] by blast
  have "map_find (loadedLibraries n1) f = map_find (loadedLibraries n) f" if "f \<in> set files2" for f
    using 1(2) files(2) that by (auto simp: loads_def new_libraries_def)
  then have "?new2 = new_libraries os opens (loadedLibraries n) files2"
    unfolding new_libraries_def by (intro filter_cong refl) (simp add: wanted_def)
  then have new: "?new1 @ ?new2 = new_libraries os opens (loadedLibraries n) files"
    by (simp add: files(1) new_libraries_def)
  have "searchForPlugins os ?bin n = (n2, Inr (?new1 @ ?new2))"
    using 1(1) 2(1) by (simp add: searchForPlugins_def)
  moreover have "loads os n (?new1 @ ?new2) n2" by (rule loads_trans [OF 1(2) 2(2)])
  ultimately show ?thesis using 1(3) 2(3) unfolding new by blast
qed

text \<open>The contracts that a search adds: those of the new libraries that accept.\<close>

definition new_contracts ::
  "('c, 'lib, 'w) os \<Rightarrow> (path \<Rightarrow> 'lib res) \<Rightarrow> ('lib \<Rightarrow> bool res) \<Rightarrow> (path, 'lib) stdmap \<Rightarrow> path list \<Rightarrow> path list" where
  "new_contracts os opens verdict libs files =
     filter (\<lambda>f. verdict (projr (opens f)) = Inr True) (new_libraries os opens libs files)"

definition steady_libraries ::
  "('c, 'lib, 'w) os \<Rightarrow> (path \<Rightarrow> 'lib res) \<Rightarrow> ('lib \<Rightarrow> bool res) \<Rightarrow> string set \<Rightarrow> path list \<Rightarrow> bool" where
  "steady_libraries os opens verdict A files \<longleftrightarrow> finite A \<and> card A \<le> 246 \<and>
     (\<forall>f \<in> set files. \<forall>lib. opens f = Inr lib \<and> usable os (opens f) \<longrightarrow>
        steady os verdict lib \<and> plugin_name os lib \<in> A)"

lemma search_and_initialize:
  fixes n :: "('c, contract_index, 'o, 'lib, 'w) node"
  assumes "library_files os opens" and "plugin_tree os files" and "steady_libraries os opens verdict A files"
    and "host_ok ops attached refuses" and "monitorable ops refuses"
    and "node_within A n h" and "map_ok (loadedLibraries n)"
  obtains n1 paths n' h' where "searchForPlugins os (parent_path (program_location os)) n = (n1, Inr paths)"
    "initializePlugins contract_index_ops ops os paths n1 = (n', Inr ())" "node_within A n' h'"
    "map_ok (loadedLibraries n')"
    "watched_since n (map (\<lambda>f. plugin_name os (projr (opens f)))
       (new_contracts os opens verdict (loadedLibraries n) files)) n'"
    "\<forall>f. map_find (loadedLibraries n') f = (if f \<in> set (new_contracts os opens verdict (loadedLibraries n) files)
       then Some (projr (opens f)) else map_find (loadedLibraries n) f)"
proof -
  let ?new = "new_libraries os opens (loadedLibraries n) files" and ?lib = "\<lambda>f. projr (opens f)"
  obtain n1 where 1: "searchForPlugins os (parent_path (program_location os)) n = (n1, Inr ?new)" "loads os n ?new n1"
    "\<forall>p lib. map_find (loadedLibraries n1) p = Some lib \<longrightarrow> map_find (loadedLibraries n) p = Some lib \<or> opens p = Inr lib"
    using searchForPlugins_tree [OF assms(1,2,7)] by blast
  have same: "chainHandler n1 = chainHandler n" "contractMonitors n1 = contractMonitors n"
    using 1(2) by (cases n, cases n1, simp add: loads_def)+
  then have within1: "node_within A n1 h" using assms(6) by (simp add: node_within_def)
  have ok1: "map_ok (loadedLibraries n1)" "distinct ?new" using 1(2) by (simp_all add: loads_def)
  have libs: "map_find (loadedLibraries n1) f = Some (?lib f) \<and> steady os verdict (?lib f) \<and> plugin_name os (?lib f) \<in> A"
    if f: "f \<in> set ?new" for f
  proof -
    have old: "map_find (loadedLibraries n) f = None" and use: "usable os (opens f)" and mem: "f \<in> set files"
      using f by (auto simp: new_libraries_def wanted_def)
    obtain lib where "map_find (loadedLibraries n1) f = Some lib" using 1(2) f by (auto simp: loads_def)
    moreover from this have "opens f = Inr lib" using 1(3) old by fastforce
    ultimately show ?thesis using assms(3) use mem by (auto simp: steady_libraries_def)
  qed
  obtain n' h' where 2: "initializePlugins contract_index_ops ops os ?new n1 = (n', Inr ())" "node_within A n' h'"
    "map_ok (loadedLibraries n')"
    "watched_since n1 (map (plugin_name os \<circ> ?lib) (filter (\<lambda>p. verdict (?lib p) = Inr True) ?new)) n'"
    "\<forall>p. map_find (loadedLibraries n') p =
      (if p \<in> set ?new \<and> verdict (?lib p) \<noteq> Inr True then None else map_find (loadedLibraries n1) p)"
    using initializePlugins_steady [OF _ _ assms(4,5) within1 ok1, of ?lib os verdict] assms(3) libs
    unfolding steady_libraries_def by blast
  have "watched_since n (map (\<lambda>f. plugin_name os (?lib f)) (new_contracts os opens verdict (loadedLibraries n) files)) n'"
    using 2(4) same by (simp add: watched_since_def new_contracts_def comp_def)
  moreover have "map_find (loadedLibraries n') f =
      (if f \<in> set (new_contracts os opens verdict (loadedLibraries n) files) then Some (?lib f)
       else map_find (loadedLibraries n) f)" for f
  proof (cases "f \<in> set ?new")
    case True
    then have "map_find (loadedLibraries n) f = None" by (auto simp: new_libraries_def wanted_def)
    with True libs [OF True] 2(5) show ?thesis by (simp add: new_contracts_def)
  next
    case False
    then have "map_find (loadedLibraries n1) f = map_find (loadedLibraries n) f" using 1(2) by (simp add: loads_def)
    with False 2(5) show ?thesis by (simp add: new_contracts_def)
  qed
  ultimately show thesis by (intro that [OF 1(1) 2(1-3)]) blast+
qed

section \<open>Starting with a directory of contracts\<close>

text \<open>A network operation that returns and at most brings the chain forward.\<close>

definition harmless :: "('c, 'p, 'o, 'lib, 'w) node effect \<Rightarrow> bool" where
  "harmless f \<longleftrightarrow> (\<forall>n h. chainHandler n = Some h \<longrightarrow>
     (\<exists>c w. f n = (n\<lparr>chainHandler := Some (h\<lparr>chain := c\<rparr>), node_world := w\<rparr>, Inr ())))"

lemma start_p2p_harmless:
  assumes "chainHandler n = Some h" and "harmless new_p2p" and "harmless (node_listen net)"
    and "harmless (node_connect net)" and "\<forall>ty i. harmless (node_sync_from net ty i)"
  shows "\<exists>c w. start_p2p B net new_p2p n =
    (\<lparr>syncing = True, world = n\<lparr>chainHandler := Some (h\<lparr>chain := c\<rparr>), node_world := w\<rparr>\<rparr>, Inr ())"
proof -
  have step: "\<exists>c' w'. f (n\<lparr>chainHandler := Some (h\<lparr>chain := c\<rparr>), node_world := w\<rparr>) =
      (n\<lparr>chainHandler := Some (h\<lparr>chain := c'\<rparr>), node_world := w'\<rparr>, Inr ())" if "harmless f" for f c w
    using that [unfolded harmless_def, rule_format, of "n\<lparr>chainHandler := Some (h\<lparr>chain := c\<rparr>), node_world := w\<rparr>"]
    by fastforce
  obtain c1 w1 where 1: "new_p2p n = (n\<lparr>chainHandler := Some (h\<lparr>chain := c1\<rparr>), node_world := w1\<rparr>, Inr ())"
    using assms(1,2) unfolding harmless_def by blast
  obtain c2 w2 where 2: "node_listen net (n\<lparr>chainHandler := Some (h\<lparr>chain := c1\<rparr>), node_world := w1\<rparr>) =
      (n\<lparr>chainHandler := Some (h\<lparr>chain := c2\<rparr>), node_world := w2\<rparr>, Inr ())" using step [OF assms(3)] by blast
  obtain c3 w3 where 3: "node_connect net (n\<lparr>chainHandler := Some (h\<lparr>chain := c2\<rparr>), node_world := w2\<rparr>) =
      (n\<lparr>chainHandler := Some (h\<lparr>chain := c3\<rparr>), node_world := w3\<rparr>, Inr ())" using step [OF assms(4)] by blast
  obtain c4 w4 where 4: "node_sync_from net (block_message_type (as_chain_db B c3)) (head_id B c3)
      (n\<lparr>chainHandler := Some (h\<lparr>chain := c3\<rparr>), node_world := w3\<rparr>) =
      (n\<lparr>chainHandler := Some (h\<lparr>chain := c4\<rparr>), node_world := w4\<rparr>, Inr ())"
    using step [OF assms(5) [rule_format]] by blast
  show ?thesis
    using assms(1) 1 2 3 4
    by (intro exI [of _ c4] exI [of _ w4]) (simp add: start_p2p_def run_effect_def connectToSeeds_def syncFrom_def node_peers_def getChain_def)
qed

lemma start_chain_steady:
  fixes E :: "('c, contract_index, 'w, 'g, 'h) start_env"
  assumes "library_files os opens" and "plugin_tree os files" and "steady_libraries os opens verdict A files"
    and "host_ok ops attached refuses" and "monitorable ops refuses"
    and "open_persistence E (persistencePath (new_ChainHandler E)) = Inr p" and "index_ok p"
    and "cr_name ` set (index_records p) \<subseteq> A"
    and "\<forall>path g c fs. snd (snd (open_database E path g c fs)) = Inr ()"
  shows "\<exists>n h. start_chain E contract_index_ops ops os (new_ContractNode w :: ('c, contract_index, 'o, 'lib, 'w) node) = (n, Inr ()) \<and>
    chainHandler n = Some h \<and> isOpen h \<and>
    list_all2 (watches h) (map (\<lambda>f. plugin_name os (projr (opens f))) (new_contracts os opens verdict [] files))
      (contractMonitors n) \<and>
    (\<forall>f. map_find (loadedLibraries n) f = (if f \<in> set (new_contracts os opens verdict [] files)
       then Some (projr (opens f)) else None))"
proof -
  let ?h = "(new_ChainHandler E)\<lparr>persistence := p\<rparr>"
  let ?n = "(new_ContractNode w :: ('c, contract_index, 'o, 'lib, 'w) node)\<lparr>chainHandler := Some ?h\<rparr>"
  have h: "initialize_handler (open_persistence E) (new_ChainHandler E) = Inr ?h"
    using assms(6) by (simp add: initialize_handler_def)
  have empty: "loadedLibraries ?n = []" "contractMonitors ?n = []" by (simp_all add: new_ContractNode_def)
  have within: "node_within A ?n ?h"
    using assms(7,8) by (simp add: node_within_def handler_ok_def new_ChainHandler_def record_names_def)
  have ok: "map_ok (loadedLibraries ?n)" by (simp add: empty)
  note search = search_and_initialize [OF assms(1-5) within ok, unfolded empty stdmap.find_empty]
  obtain n1 paths n' h' where
    run: "searchForPlugins os (parent_path (program_location os)) ?n = (n1, Inr paths)"
    "initializePlugins contract_index_ops ops os paths n1 = (n', Inr ())" and n': "node_within A n' h'"
    and since: "watched_since ?n (map (\<lambda>f. plugin_name os (projr (opens f))) (new_contracts os opens verdict [] files)) n'"
    and libs: "\<forall>f. map_find (loadedLibraries n') f = (if f \<in> set (new_contracts os opens verdict [] files)
       then Some (projr (opens f)) else None)"
    by (rule search) (rule that)
  obtain c fs where opened: "open_database E (chainPath h') (computeGenesis (genesis_of E) (genesisPath h')) (chain h')
      (get_files E (node_world n')) = (c, fs, Inr ())"
    using assms(9) by (metis prod.collapse)
  have h': "chainHandler n' = Some h'" using n' by (simp add: node_within_def)
  have watching: "list_all2 (watches h')
      (map (\<lambda>f. plugin_name os (projr (opens f))) (new_contracts os opens verdict [] files)) (contractMonitors n')"
    using since h' unfolding watched_since_def empty by auto
  have "start_chain E contract_index_ops ops os (new_ContractNode w) =
      (n'\<lparr>chainHandler := Some (h'\<lparr>chain := c, isOpen := True\<rparr>), node_world := put_files E fs (node_world n')\<rparr>, Inr ())"
    using h run h' opened
    by (simp add: start_chain_def initializeBlockchain_def open_chain_def)
  moreover have "list_all2 (watches (h'\<lparr>chain := c, isOpen := True\<rparr>))
      (map (\<lambda>f. plugin_name os (projr (opens f))) (new_contracts os opens verdict [] files)) (contractMonitors n')"
    using watching by (rule list_all2_mono) (simp add: watches_def)
  ultimately show ?thesis using libs by simp
qed

text \<open>
  C10. A start with a directory of contracts: when the databases open, the network answers and the
  libraries in the two plugin directories are well behaved (with fixed verdicts on registration, and at
  most 246 names of contracts in all, those of the records included), \<open>run\<close> comes to wait with an open
  chain and a sync begun. Then exactly the contracts that accept are loaded, in the order of the
  directories, and each of them is watched by one contract monitor, under its name and in the space of
  its record. A contract that refuses or throws a Boost exception does not keep the others from it.
\<close>

theorem startup_watches_every_contract:
  fixes E :: "('c, contract_index, 'w, 'g, 'h) start_env"
    and net :: "('id, 'trx, ('c, contract_index, 'o, 'lib, 'w) node) p2p_peers"
  assumes "library_files os opens" and "plugin_tree os files" and "steady_libraries os opens verdict A files"
    and "host_ok ops attached refuses" and "monitorable ops refuses"
    and "open_persistence E (persistencePath (new_ChainHandler E)) = Inr p" and "index_ok p"
    and "cr_name ` set (index_records p) \<subseteq> A"
    and "\<forall>path g c fs. snd (snd (open_database E path g c fs)) = Inr ()"
    and "harmless new_p2p" and "harmless (node_listen net)" and "harmless (node_connect net)"
    and "\<forall>ty i. harmless (node_sync_from net ty i)"
  shows "\<exists>s h. run E contract_index_ops ops os B net new_p2p (new_ContractNode w) = Waiting s \<and> isSyncing s \<and>
    chainHandler (world s) = Some h \<and> isOpen h \<and>
    list_all2 (\<lambda>f cm. contractName cm = plugin_name os (projr (opens f)) \<and>
        (\<exists>r \<in> set (index_records (persistence h)). cr_name r = contractName cm \<and> spaceId cm = contractObjectSpaceId r))
      (new_contracts os opens verdict [] files) (contractMonitors (world s)) \<and>
    (\<forall>f. map_find (loadedLibraries (world s)) f =
      (if f \<in> set (new_contracts os opens verdict [] files) then Some (projr (opens f)) else None))"
proof -
  let ?new = "new_contracts os opens verdict [] files"
  obtain n h where 1: "start_chain E contract_index_ops ops os
      (new_ContractNode w :: ('c, contract_index, 'o, 'lib, 'w) node) = (n, Inr ())"
    "chainHandler n = Some h" "isOpen h"
    "list_all2 (watches h) (map (\<lambda>f. plugin_name os (projr (opens f))) ?new) (contractMonitors n)"
    "\<forall>f. map_find (loadedLibraries n) f = (if f \<in> set ?new then Some (projr (opens f)) else None)"
    using start_chain_steady [OF assms(1-9)] by blast
  obtain c w' where 2: "start_p2p B net new_p2p n =
      (\<lparr>syncing = True, world = n\<lparr>chainHandler := Some (h\<lparr>chain := c\<rparr>), node_world := w'\<rparr>\<rparr>, Inr ())"
    using start_p2p_harmless [OF 1(2) assms(10-13)] by blast
  have "list_all2 (\<lambda>f cm. contractName cm = plugin_name os (projr (opens f)) \<and>
        (\<exists>r \<in> set (index_records (persistence (h\<lparr>chain := c\<rparr>))). cr_name r = contractName cm \<and>
           spaceId cm = contractObjectSpaceId r)) ?new (contractMonitors n)"
    using 1(4) unfolding list_all2_map1 by (rule list_all2_mono) (auto simp: watches_def)
  with 1 2 show ?thesis by (simp add: run_def isSyncing_def)
qed

text \<open>A concrete start, with the plugin directory of the sample environment and tables that can all be
  monitored.\<close>

definition calm_db_ops :: "sample_tables db_ops" where
  "calm_db_ops = sample_db_ops\<lparr>indexes_of := (\<lambda>d k. Inr (filter (\<lambda>idx. fst idx = k \<and> sample_refuses idx = None) (all_indexes d)))\<rparr>"

lemma calm_db_ops_ok: "host_ok calm_db_ops attached_monitors sample_refuses" "monitorable calm_db_ops sample_refuses"
proof -
  show "host_ok calm_db_ops attached_monitors sample_refuses"
    using fresh_address by (auto simp: host_ok_def calm_db_ops_def sample_db_ops_def Let_def split: option.split)
  show "monitorable calm_db_ops sample_refuses"
    by (simp add: calm_db_ops_def monitorable_def list_all_iff goes_on_def)
qed

definition sample_opens :: "path \<Rightarrow> path res" where
  "sample_opens p = (if filename p = ''bad.so'' then Inl (SystemError ''bad image'') else Inr p)"

definition sample_verdict :: "path \<Rightarrow> bool res" where
  "sample_verdict lib = (if filename lib = ''voting.so'' then Inr True else Inl (FcException ''broken''))"

abbreviation sample_files :: "path list" where
  "sample_files \<equiv> [plugin_path ''bad.so'', plugin_path ''readme.txt'', plugin_path ''voting.so'']"

lemma sample_library_files: "library_files sample_os sample_opens"
  by (simp add: library_files_def sample_os_def sample_opens_def)

lemma sample_plugin_tree: "plugin_tree sample_os sample_files"
  unfolding plugin_tree_def
  by (intro conjI exI [of _ sample_files] exI [of _ "[]"])
    (simp_all add: plugin_dir_def sample_os_def plugin_path_def parent_path_def path_append_def)

lemma sample_steady: "steady_libraries sample_os sample_opens sample_verdict {''voting'', ''escrow''} sample_files"
  by (auto simp: steady_libraries_def steady_def plugin_name_def usable_def sample_os_def sample_opens_def
      sample_verdict_def plugin_path_def filename_def)

lemma sample_new_contracts: "new_contracts sample_os sample_opens sample_verdict [] sample_files = [plugin_path ''voting.so'']"
  by (simp add: new_contracts_def new_libraries_def wanted_def usable_def sample_os_def sample_opens_def
      sample_verdict_def plugin_path_def filename_def checkedExtensions_def map_find_def)

lemma sample_net_harmless: "harmless (\<lambda>n :: ('c, 'p, 'o, 'lib, 'w) node. (n, Inr ()))"
  unfolding harmless_def
proof (intro allI impI)
  fix n :: "('c, 'p, 'o, 'lib, 'w) node" and h
  assume "chainHandler n = Some h"
  then have "n = n\<lparr>chainHandler := Some (h\<lparr>chain := chain h\<rparr>), node_world := node_world n\<rparr>"
    by (cases n, cases h) simp
  then show "\<exists>c w. (n, Inr ()) = (n\<lparr>chainHandler := Some (h\<lparr>chain := c\<rparr>), node_world := w\<rparr>, Inr () :: unit res)"
    by (metis prod.inject)
qed

theorem startup_watches_every_contract_witness:
  "\<exists>s h. run sample_start contract_index_ops calm_db_ops sample_os sample_blocks sample_net (\<lambda>n. (n, Inr ()))
      (new_ContractNode 0 :: (sample_tables, contract_index, nat, path, nat) node) = Waiting s \<and> isSyncing s \<and>
    chainHandler (world s) = Some h \<and> isOpen h \<and>
    list_all2 (\<lambda>f cm. contractName cm = plugin_name sample_os (projr (sample_opens f)) \<and>
        (\<exists>r \<in> set (index_records (persistence h)). cr_name r = contractName cm \<and> spaceId cm = contractObjectSpaceId r))
      [plugin_path ''voting.so''] (contractMonitors (world s)) \<and>
    (\<forall>f. map_find (loadedLibraries (world s)) f =
      (if f \<in> set [plugin_path ''voting.so''] then Some (projr (sample_opens f)) else None))"
  by (rule startup_watches_every_contract [OF sample_library_files sample_plugin_tree sample_steady calm_db_ops_ok,
      where p = sample_index and E = sample_start and net = sample_net, unfolded sample_new_contracts])
    (simp_all add: sample_index_ok sample_start_def sample_net_def sample_net_harmless,
     simp add: sample_index_def)
section \<open>Searching again\<close>

lemma search_task_steady:
  fixes n :: "('c, contract_index, 'o, 'lib, 'w) node" and R :: "('c, 'obj, 'o) db_reader"
  assumes "library_files os opens" and "plugin_tree os files" and "steady_libraries os opens verdict A files"
    and "host_ok ops attached refuses" and "monitorable ops refuses"
    and "node_within A n h" and "map_ok (loadedLibraries n)"
  defines "n' \<equiv> run_task contract_index_ops ops os R Search_task n"
  shows "\<exists>h'. node_within A n' h' \<and> map_ok (loadedLibraries n') \<and>
    watched_since n (map (\<lambda>f. plugin_name os (projr (opens f)))
       (new_contracts os opens verdict (loadedLibraries n) files)) n' \<and>
    (\<forall>f. map_find (loadedLibraries n') f = (if f \<in> set (new_contracts os opens verdict (loadedLibraries n) files)
       then Some (projr (opens f)) else map_find (loadedLibraries n) f))"
proof (rule search_and_initialize [OF assms(1-7)])
  fix n1 paths n2 h'
  assume "searchForPlugins os (parent_path (program_location os)) n = (n1, Inr paths)"
    "initializePlugins contract_index_ops ops os paths n1 = (n2, Inr ())"
  then have "n' = n2" by (simp add: n'_def run_task_def)
  moreover assume "node_within A n2 h'" "map_ok (loadedLibraries n2)"
    "watched_since n (map (\<lambda>f. plugin_name os (projr (opens f)))
       (new_contracts os opens verdict (loadedLibraries n) files)) n2"
    "\<forall>f. map_find (loadedLibraries n2) f = (if f \<in> set (new_contracts os opens verdict (loadedLibraries n) files)
       then Some (projr (opens f)) else map_find (loadedLibraries n) f)"
  ultimately show ?thesis by blast
qed

text \<open>
  C11. The search that \<open>SIGUSR1\<close> asks for: with well-behaved libraries it loads exactly the contracts
  that are new and accept, leaves the loaded ones alone, and adds one contract monitor for each of them
  behind those that are there, under its name and in the space of its record. Asking for it again with
  the directories unchanged changes neither the monitors nor the loaded libraries: the libraries that
  were refused are opened, asked and closed again.
\<close>

theorem search_task_adds_new_contracts:
  fixes n :: "('c, contract_index, 'o, 'lib, 'w) node"
  assumes "library_files os opens" and "plugin_tree os files" and "steady_libraries os opens verdict A files"
    and "host_ok ops attached refuses" and "monitorable ops refuses"
    and "chainHandler n = Some h" and "handler_ok index_records index_ok h"
    and "cr_name ` set (index_records (persistence h)) \<subseteq> A" and "map_ok (loadedLibraries n)"
    and "n' = run_task contract_index_ops ops os R Search_task n"
    and "n'' = run_task contract_index_ops ops os R Search_task n'"
  shows "(\<exists>h' ms. chainHandler n' = Some h' \<and> contractMonitors n' = contractMonitors n @ ms \<and>
      list_all2 (\<lambda>f cm. contractName cm = plugin_name os (projr (opens f)) \<and>
          (\<exists>r \<in> set (index_records (persistence h')). cr_name r = contractName cm \<and> spaceId cm = contractObjectSpaceId r))
        (new_contracts os opens verdict (loadedLibraries n) files) ms) \<and>
    (\<forall>f. map_find (loadedLibraries n') f = (if f \<in> set (new_contracts os opens verdict (loadedLibraries n) files)
       then Some (projr (opens f)) else map_find (loadedLibraries n) f)) \<and>
    contractMonitors n'' = contractMonitors n' \<and>
    (\<forall>f. map_find (loadedLibraries n'') f = map_find (loadedLibraries n') f)"
proof -
  let ?new = "\<lambda>n. new_contracts os opens verdict (loadedLibraries n) files"
  have within: "node_within A n h" using assms(6-8) by (simp add: node_within_def record_names_def)
  obtain h' where 1: "node_within A n' h'" "map_ok (loadedLibraries n')"
    "watched_since n (map (\<lambda>f. plugin_name os (projr (opens f))) (?new n)) n'"
    "\<forall>f. map_find (loadedLibraries n') f = (if f \<in> set (?new n) then Some (projr (opens f))
       else map_find (loadedLibraries n) f)"
    using search_task_steady [OF assms(1-5) within assms(9)] assms(10) by blast
  have "?new n' = []"
    using 1(4) by (auto simp: new_contracts_def new_libraries_def wanted_def filter_empty_conv split: if_splits)
  then obtain h'' where 2: "watched_since n' [] n''" "\<forall>f. map_find (loadedLibraries n'') f = map_find (loadedLibraries n') f"
    using search_task_steady [OF assms(1-5) 1(1,2)] assms(11) by fastforce
  obtain ms where ms: "chainHandler n' = Some h'" "contractMonitors n' = contractMonitors n @ ms"
    "list_all2 (watches h') (map (\<lambda>f. plugin_name os (projr (opens f))) (?new n)) ms"
    using 1(1,3) by (auto simp: watched_since_def node_within_def)
  have "list_all2 (\<lambda>f cm. contractName cm = plugin_name os (projr (opens f)) \<and>
      (\<exists>r \<in> set (index_records (persistence h')). cr_name r = contractName cm \<and> spaceId cm = contractObjectSpaceId r))
      (?new n) ms"
    using ms(3) unfolding list_all2_map1 by (rule list_all2_mono) (auto simp: watches_def)
  moreover have "contractMonitors n'' = contractMonitors n'" using 2(1) by (auto simp: watched_since_def)
  ultimately show ?thesis using ms(1,2) 1(4) 2(2) by blast
qed

theorem search_task_adds_new_contracts_witness:
  "\<exists>n' n''. n' = run_task contract_index_ops calm_db_ops sample_os sample_reader Search_task sample_node \<and>
    n'' = run_task contract_index_ops calm_db_ops sample_os sample_reader Search_task n' \<and>
    map_find (loadedLibraries n') (plugin_path ''voting.so'') = Some (plugin_path ''voting.so'') \<and>
    length (contractMonitors n') = 1 \<and> contractMonitors n'' = contractMonitors n'"
proof -
  let ?n' = "run_task contract_index_ops calm_db_ops sample_os sample_reader Search_task sample_node"
  have "chainHandler sample_node = Some sample_chain" "handler_ok index_records index_ok sample_chain"
    "cr_name ` set (index_records (persistence sample_chain)) \<subseteq> {''voting'', ''escrow''}"
    "map_ok (loadedLibraries sample_node)" "loadedLibraries sample_node = []" "contractMonitors sample_node = []"
    using sample_index_ok
    by (simp_all add: sample_node_def sample_chain_def handler_ok_def) (simp add: sample_index_def)
  note start = this
  have "projr (sample_opens (plugin_path ''voting.so'')) = plugin_path ''voting.so''"
    by (simp add: sample_opens_def plugin_path_def filename_def)
  then show ?thesis
    using search_task_adds_new_contracts [OF sample_library_files sample_plugin_tree sample_steady calm_db_ops_ok
        start(1-4) refl refl, of sample_reader]
    unfolding start(5,6) sample_new_contracts by (auto dest: list_all2_lengthD)
qed

section \<open>The contract that has no space left\<close>

text \<open>
  C25. What happens beyond the bound of 246 spaces: the initializer of a contract 256 places behind a loaded
  one is run on the space of that one. When it accepts, the map of loaded contracts keeps the other one,
  so \<open>observeContract\<close> does not find the new one and throws an FC exception, which \<open>initializePlugins\<close>
  does not catch: no further library is initialized, and the library stays loaded, without a monitor. At
  startup the exception reaches \<open>run\<close>, which returns 1.
\<close>

theorem colliding_contract_stops_initialization:
  fixes n :: "('c, contract_index, 'o, 'lib, 'w) node"
  assumes "chainHandler n = Some h" and "handler_ok index_records index_ok h"
    and "map_find (loadedLibraries n) p = Some lib" and "contractName_symbol os lib = Some (Some name)"
    and "registerContract_symbol os lib = Some f"
    and "name \<notin> reg_loaded (registry_of h)" and "other \<in> reg_loaded (registry_of h)"
    and "reg_position (registry_of h) name = reg_position (registry_of h) other + 256"
    and "getSpaceId h other = Inr k" and "f (chain h) k = (c, Inr True)"
  shows "\<exists>n' h1. initializePlugins contract_index_ops ops os (p # ps) n =
      (n', Inl (FcAssert ''Could not find contract'')) \<and>
    chainHandler n' = Some h1 \<and> chain h1 = c \<and> getLoadedContracts h1 = getLoadedContracts h \<and>
    contractMonitors n' = contractMonitors n \<and> loadedLibraries n' = loadedLibraries n"
proof -
  have "(of_nat (10 + (q + 256)) :: u8) = of_nat (10 + q)" for q :: nat
  proof -
    have "(256 :: u8) = 0" by simp
    then show ?thesis by (simp only: of_nat_add of_nat_numeral add_0_right)
  qed
  then have space: "reg_space (registry_of h) other = reg_space (registry_of h) name"
    using assms(8) by (simp add: reg_space_def)
  have "k = reg_space (registry_of h) other"
    using registry_queries(1) [OF assms(2), of other] assms(7,9) by simp
  then obtain h1 where h1: "initializeContract contract_index_ops name f h = (h1, Inr True)" "chain h1 = c"
    "getLoadedContracts h1 = getLoadedContracts h" "getSpaceId h1 name = Inl (FcAssert ''Could not find contract'')"
    using initializeContract_collides [OF assms(2,6,7) space] assms(10) by blast
  have name: "plugin_name os lib = name" using assms(4) by (simp add: plugin_name_def)
  have "initializePlugin_try contract_index_ops ops os lib n =
      (n\<lparr>chainHandler := Some h1, next_monitor := Suc (next_monitor n)\<rparr>, Inl (FcAssert ''Could not find contract''))"
    using initializePlugin_try_eq [OF _ assms(5,1), of contract_index_ops ops] assms(4) h1(1,4)
    by (simp add: name observeContract_name_def)
  then show ?thesis using assms(3) h1(2,3) by (simp add: initializePlugin_def)
qed

definition crowded_chain :: "(sample_tables, contract_index) chain_handler" where
  "crowded_chain = sample_chain\<lparr>persistence := many_records 256, loadedContracts := [(10, [])]\<rparr>"

lemma crowded_chain_ok: "handler_ok index_records index_ok crowded_chain"
  using many_records_ok [of 256]
  by (auto simp: handler_ok_def crowded_chain_def many_records_def contractObjectSpaceId_def
      FIRST_AVAILABLE_SPACE_ID_def map_ok_def list_ex_iff)

lemma crowded_positions: "reg_position (registry_of crowded_chain) ''voting'' = 256"
  "reg_position (registry_of crowded_chain) [] = 0"
proof -
  let ?names = "map (\<lambda>i. replicate i CHR ''c'') [0..<256]"
  have "''voting'' \<notin> set ?names" by (auto dest: arg_cong [where f = hd] simp: Cons_replicate_eq)
  then have "takeWhile (\<lambda>n. n \<noteq> ''voting'') ?names = ?names" by (auto simp only: takeWhile_eq_all_conv)
  moreover have "reg_names (registry_of crowded_chain) = ?names"
    by (simp add: registry_of_def crowded_chain_def many_records_def o_def)
  ultimately show "reg_position (registry_of crowded_chain) ''voting'' = 256"
    unfolding reg_position_def by (simp only: length_map length_upt)
  show "reg_position (registry_of crowded_chain) [] = 0"
    by (simp add: reg_position_def registry_of_def crowded_chain_def many_records_def upt_rec)
qed

theorem colliding_contract_stops_initialization_witness:
  "snd (initializePlugins contract_index_ops sample_db_ops sample_os [plugin_path ''voting.so'']
     (sample_node_loaded\<lparr>chainHandler := Some crowded_chain\<rparr>)) = Inl (FcAssert ''Could not find contract'')"
proof -
  let ?n = "sample_node_loaded\<lparr>chainHandler := Some crowded_chain\<rparr>" and ?p = "plugin_path ''voting.so''"
  have node: "chainHandler ?n = Some crowded_chain" "map_find (loadedLibraries ?n) ?p = Some ?p"
    by (simp_all add: sample_node_loaded_def map_find_def)
  have lib: "contractName_symbol sample_os ?p = Some (Some ''voting'')"
    "registerContract_symbol sample_os ?p = Some (\<lambda>c k. (c, Inr True))"
    by (simp_all add: sample_os_def plugin_path_def filename_def)
  have loaded: "''voting'' \<notin> reg_loaded (registry_of crowded_chain)" "[] \<in> reg_loaded (registry_of crowded_chain)"
    "getSpaceId crowded_chain [] = Inr 10"
    by (simp_all add: registry_of_def crowded_chain_def getSpaceId_def)
  have "reg_position (registry_of crowded_chain) ''voting'' = reg_position (registry_of crowded_chain) [] + 256"
    by (simp only: crowded_positions)
  from colliding_contract_stops_initialization [OF node(1) crowded_chain_ok node(2) lib loaded(1,2) this loaded(3) refl,
      of sample_db_ops "[]"]
  show ?thesis by (metis snd_conv)
qed

end
