(* ===== verification/Shared_Name.thy ===== *)
theory Shared_Name
  imports Node_Startup
begin

text \<open>
  Two libraries with one contract name, as when copies of a library stand in both plugin directories:
  \<open>ContractNode::loadedLibraries\<close> is keyed by path and \<open>ChainHandler\<close>'s records by name, so both libraries
  are loaded and share a record, a space and an entry of the loaded contracts, but each of them gets a
  contract monitor of its own.
\<close>

section \<open>Watching one table\<close>

text \<open>Registering the contract leaves the table \<open>idx\<close> in its space, and does not meddle with monitors.\<close>

definition provides_table ::
  "'c db_ops \<Rightarrow> ('c \<Rightarrow> ((u8 \<times> u8) \<times> nat) list) \<Rightarrow> u8 \<times> u8 \<Rightarrow> ('c \<Rightarrow> u8 \<Rightarrow> 'c \<times> bool res) \<Rightarrow> bool" where
  "provides_table ops attached idx f \<longleftrightarrow>
     (\<forall>c. attached (fst (f c (fst idx))) = attached c) \<and>
     (\<forall>c ts. indexes_of ops (fst (f c (fst idx))) (fst idx) = Inr ts \<longrightarrow> idx \<in> set ts)"

text \<open>The contract monitor \<open>i\<close> has the table monitor \<open>p\<close> attached to the table \<open>idx\<close>, and reports it under
  the contract's name and the table's.\<close>

definition reports ::
  "('c \<Rightarrow> ((u8 \<times> u8) \<times> nat) list) \<Rightarrow> ('c, 'p, 'o, 'lib, 'w) node \<Rightarrow> StringList option \<Rightarrow> contract_monitor \<Rightarrow>
   u8 \<times> u8 \<Rightarrow> nat \<Rightarrow> bool" where
  "reports attached n tables cm idx p \<longleftrightarrow> p \<in> set (monitors cm) \<and>
     (\<exists>h. chainHandler n = Some h \<and> (idx, p) \<in> set (attached (chain h))) \<and>
     wired (monitor_id cm) (snd idx) (monitor_heap n p) \<and> cm \<in> set (contractMonitors n) \<and>
     connections n (monitor_id cm) = Some (tables, contractName cm)"

text \<open>What such a table monitor does when the database announces a new object.\<close>

lemma reports_created:
  assumes "reports attached n tables cm idx p"
    and "\<forall>t. tables = Some t \<longrightarrow> unat (count_field t) = length (values_field t)" and "read obj = Inr v"
  shows "object_created (node_monitor_env read moved n) obj (monitor_heap n p) out =
    (monitor_heap n p, out @ [LogCreated (contractName cm) (table_label tables (snd idx)) v], Inr ())"
proof -
  have "wired (monitor_id cm) (snd idx) (monitor_heap n p)" "monitor_id cm \<in> monitor_id ` set (contractMonitors n)"
    "connections n (monitor_id cm) = Some (tables, contractName cm)"
    using assms(1) by (auto simp: reports_def)
  then show ?thesis
    using assms(3) table_name_label [OF assms(2), of "snd idx"]
    by (simp add: wired_def object_created_def notify_object_def emit_signal_def node_monitor_env_def node_slots_def)
qed

text \<open>What initializing a library keeps of the monitors that are there: they stay attached, in the heap, in
  the list and connected, and the next contract monitor has a number of its own.\<close>

definition monitors_kept ::
  "('c \<Rightarrow> ((u8 \<times> u8) \<times> nat) list) \<Rightarrow> ('c, 'p, 'o, 'lib, 'w) node \<Rightarrow> ('c, 'p, 'o, 'lib, 'w) node \<Rightarrow> bool" where
  "monitors_kept attached n n' \<longleftrightarrow>
     (\<forall>h. chainHandler n = Some h \<longrightarrow> (\<exists>h'. chainHandler n' = Some h' \<and>
        set (attached (chain h)) \<subseteq> set (attached (chain h')) \<and>
        (\<forall>p \<in> snd ` set (attached (chain h)). monitor_heap n' p = monitor_heap n p))) \<and>
     set (contractMonitors n) \<subseteq> set (contractMonitors n') \<and>
     (\<forall>i < next_monitor n. connections n' i = connections n i)"

lemma reports_kept:
  assumes "reports attached n tables cm idx p" and "monitors_kept attached n n'" and "monitor_id cm < next_monitor n"
  shows "reports attached n' tables cm idx p"
proof -
  obtain h where h: "chainHandler n = Some h" "(idx, p) \<in> set (attached (chain h))"
    using assms(1) by (auto simp: reports_def)
  have "snd (idx, p) \<in> snd ` set (attached (chain h))" using h(2) by (rule imageI)
  moreover obtain h' where "chainHandler n' = Some h'" "set (attached (chain h)) \<subseteq> set (attached (chain h'))"
    "\<forall>p \<in> snd ` set (attached (chain h)). monitor_heap n' p = monitor_heap n p"
    using assms(2) h(1) by (auto simp: monitors_kept_def)
  ultimately show ?thesis using assms h(2) by (auto simp: reports_def monitors_kept_def)
qed

text \<open>A contract that accepts is run once on the chain, with the space that its name has, and the record of
  that name and its space stay.\<close>

lemma initializeContract_space:
  assumes "handler_ok index_records index_ok h" and "f (chain h) (reg_space (registry_of h) name) = (c, Inr True)"
  obtains h1 where "initializeContract contract_index_ops name f h = (h1, Inr True)" "chain h1 = c"
    "handler_ok index_records index_ok h1" "record_names h1 \<subseteq> insert name (record_names h)"
    "reg_space (registry_of h1) name = reg_space (registry_of h) name"
proof -
  have ix: "index_ok (persistence h)" using assms(1) by (simp add: handler_ok_def)
  obtain p r where p: "contract_record_for contract_index_ops (persistence h) name = Inr (p, r)" "index_ok p"
    "map cr_name (index_records p) = reg_names (reg_initialize name True (registry_of h))"
    "r \<in> set (index_records p)" "cr_name r = name" "contractObjectSpaceId r = reg_space (registry_of h) name"
    by (rule record_for_space [OF ix])
  let ?h1 = "fst (initializeContract contract_index_ops name f h)"
  have run: "initializeContract contract_index_ops name f h = (?h1, Inr True)" "chain ?h1 = c" "persistence ?h1 = p"
    using p(1,6) assms(2) by (auto simp: initializeContract_def Let_def)
  have "set (map cr_name (index_records p)) \<subseteq> insert name (record_names h)"
    unfolding p(3) by (auto simp: reg_initialize_def registry_of_def record_names_def)
  then have "record_names ?h1 \<subseteq> insert name (record_names h)" using run(3) by (simp add: record_names_def)
  moreover have "reg_space (registry_of ?h1) name = reg_space (registry_of h) name"
    using record_space [of ?h1 r] p run(3) by simp
  ultimately show thesis
    using contract_store.initializeContract_ok [OF assms(1), of name f] run by (intro that [of ?h1]) simp_all
qed

text \<open>A contract monitor has a fresh table monitor of its own on every table that the database accepts.\<close>

lemma MultiTableMonitor_table:
  assumes "host_ok ops attached refuses" and "indexes_of ops c k = Inr idxs" and "list_all (goes_on refuses) idxs"
    and "idx \<in> set idxs" and "refuses idx = None"
  obtains d heap' ps p where "MultiTableMonitor ops i name k c heap =
      (d, heap', Inr \<lparr>monitor_id = i, contractName = name, spaceId = k, monitors = ps\<rparr>)"
    "set (attached c) \<subseteq> set (attached d)" "\<forall>q \<in> snd ` set (attached c). heap' q = heap q"
    "p \<in> set ps" "wired i (snd idx) (heap' p)" "(idx, p) \<in> set (attached d)" "p \<notin> snd ` set (attached c)"
proof -
  let ?ts = "filter (\<lambda>t. refuses t = None) idxs"
  obtain d heap' ps where m: "MultiTableMonitor ops i name k c heap =
      (d, heap', Inr \<lparr>monitor_id = i, contractName = name, spaceId = k, monitors = ps\<rparr>)"
    "attached d = attached c @ zip ?ts ps" "fresh_monitors i (attached c) ?ts heap heap' ps"
    using MultiTableMonitor_complete [OF assms(1-3)] by blast
  then have wired: "list_all2 (\<lambda>t p. wired i (snd t) (heap' p)) ?ts ps" by (simp add: fresh_monitors_def)
  have "idx \<in> set ?ts" using assms(4,5) by simp
  then obtain j where j: "j < length ?ts" "?ts ! j = idx" unfolding in_set_conv_nth by blast
  have p: "ps ! j \<in> set ps" "wired i (snd idx) (heap' (ps ! j))" "(idx, ps ! j) \<in> set (attached d)"
    using j list_all2_lengthD [OF wired] list_all2_nthD [OF wired j(1)] m(2) by (auto simp: set_zip)
  have fresh: "set ps \<inter> snd ` set (attached c) = {}" "\<And>q. q \<notin> set ps \<Longrightarrow> heap' q = heap q"
    using m(3) by (simp_all add: fresh_monitors_def)
  then have "\<forall>q \<in> snd ` set (attached c). heap' q = heap q" "ps ! j \<notin> snd ` set (attached c)"
    using p(1) by blast+
  then show thesis using m(1,2) p by (intro that [of d heap' ps "ps ! j"]) simp_all
qed

lemma accepted_library_reports:
  fixes n :: "('c, contract_index, 'o, 'lib, 'w) node"
  assumes "node_within A n h" and "finite A" and "card A \<le> 246"
    and "contractName_symbol os lib \<noteq> Some None" and "plugin_name os lib = name" and "name \<in> A"
    and "registerContract_symbol os lib = Some f" and "f (chain h) (fst idx) = (c, Inr True)"
    and "provides_table ops attached idx f" and "refuses idx = None" and "fst idx = reg_space (registry_of h) name"
    and "host_ok ops attached refuses" and "monitorable ops refuses"
  obtains n' h' cm p where "initializePlugin contract_index_ops ops os lib n = (n', Inr True)"
    "node_within A n' h'" "reg_space (registry_of h') name = fst idx" "loadedLibraries n' = loadedLibraries n"
    "contractMonitors n' = contractMonitors n @ [cm]" "contractName cm = name" "spaceId cm = fst idx"
    "monitor_id cm = next_monitor n" "next_monitor n' = Suc (next_monitor n)" "monitors_kept attached n n'"
    "reports attached n' (tableNames_symbol os lib) cm idx p" "p \<notin> snd ` set (attached (chain h))"
proof -
  let ?i = "next_monitor n" and ?k = "fst idx"
  have h: "chainHandler n = Some h" "handler_ok index_records index_ok h" "record_names h \<subseteq> A"
    using assms(1) by (simp_all add: node_within_def)
  obtain h1 where h1: "initializeContract contract_index_ops name f h = (h1, Inr True)" "chain h1 = c"
    "handler_ok index_records index_ok h1" "record_names h1 \<subseteq> insert name (record_names h)"
    "reg_space (registry_of h1) name = ?k"
    using initializeContract_space [OF h(2), of f name c] assms(8,11) by metis
  have A1: "record_names h1 \<subseteq> A" using h1(4) h(3) assms(6) by blast
  have "length (index_records (persistence h1)) \<le> 246" by (rule records_bound [OF h1(3) A1 assms(2,3)])
  from initialized_space [OF h(2) h1(1) this] obtain r where r: "r \<in> set (index_records (persistence h1))"
    "cr_name r = name" "getSpaceId h1 name = Inr (contractObjectSpaceId r)" by blast
  have "contractObjectSpaceId r = ?k"
    using record_space [OF _ r(1)] h1(3,5) r(2) by (simp add: handler_ok_def)
  with r(3) have space: "getSpaceId h1 name = Inr ?k" by simp
  obtain idxs where idxs: "indexes_of ops c ?k = Inr idxs" "list_all (goes_on refuses) idxs"
    using assms(13) unfolding monitorable_def by blast
  have table: "idx \<in> set idxs" "attached c = attached (chain h)"
    using assms(8,9) idxs(1) unfolding provides_table_def by (metis fst_conv)+
  obtain d heap ps p where m: "MultiTableMonitor ops ?i name ?k c (monitor_heap n) =
      (d, heap, Inr \<lparr>monitor_id = ?i, contractName = name, spaceId = ?k, monitors = ps\<rparr>)"
    "set (attached c) \<subseteq> set (attached d)" "\<forall>q \<in> snd ` set (attached c). heap q = monitor_heap n q"
    "p \<in> set ps" "wired ?i (snd idx) (heap p)" "(idx, p) \<in> set (attached d)" "p \<notin> snd ` set (attached c)"
    by (rule MultiTableMonitor_table [OF assms(12) idxs table(1) assms(10)])
  let ?cm = "\<lparr>monitor_id = ?i, contractName = name, spaceId = ?k, monitors = ps\<rparr>"
  let ?h' = "h1\<lparr>chain := d\<rparr>"
  let ?n' = "n\<lparr>chainHandler := Some ?h', monitor_heap := heap, next_monitor := Suc ?i,
    connections := (connections n)(?i \<mapsto> (tableNames_symbol os lib, name)),
    contractMonitors := contractMonitors n @ [?cm]\<rparr>"
  show thesis
  proof (rule that [of ?n' ?h' ?cm p])
    show "initializePlugin contract_index_ops ops os lib n = (?n', Inr True)"
      using initializePlugin_try_eq [OF assms(4,7) h(1), of contract_index_ops ops] h1(1,2) space m(1) assms(5)
      by (simp add: initializePlugin_def observeContract_name_def observeContract_def Let_def)
    show "node_within A ?n' ?h'" using h1(3) A1 by (simp add: node_within_def record_names_def)
    show "reg_space (registry_of ?h') name = fst idx" using h1(5) by (simp add: registry_of_def)
    show "monitors_kept attached n ?n'" using h(1) m(2,3) table(2) by (auto simp: monitors_kept_def)
    show "reports attached ?n' (tableNames_symbol os lib) ?cm idx p" using m(4-6) by (simp add: reports_def)
    show "p \<notin> snd ` set (attached (chain h))" using m(7) table(2) by simp
  qed simp_all
qed

section \<open>Two libraries\<close>

text \<open>A library whose contract has the given name, accepts the space of the table \<open>idx\<close>, provides that table,
  and lists as many table names as it says.\<close>

definition contract_library ::
  "'c db_ops \<Rightarrow> ('c \<Rightarrow> ((u8 \<times> u8) \<times> nat) list) \<Rightarrow> ('c, 'lib, 'w) os \<Rightarrow> string \<Rightarrow> u8 \<times> u8 \<Rightarrow> 'lib \<Rightarrow> bool" where
  "contract_library ops attached os name idx lib \<longleftrightarrow>
     contractName_symbol os lib \<noteq> Some None \<and> plugin_name os lib = name \<and>
     (\<exists>f. registerContract_symbol os lib = Some f \<and> provides_table ops attached idx f \<and>
        (\<forall>c. snd (f c (fst idx)) = Inr True)) \<and>
     (\<forall>t. tableNames_symbol os lib = Some t \<longrightarrow> unat (count_field t) = length (values_field t))"

text \<open>
  C24. Two libraries with contracts of the same name, as when a file stands in both plugin directories:
  when both accept, both stay loaded and share one object space, but the node keeps two contract monitors
  of that space, and each has a table monitor of its own on the same table. So the database's one
  announcement of a new object reaches both and is logged twice, under the same contract.
\<close>

theorem shared_name_reported_twice:
  fixes n :: "('c, contract_index, 'o, 'lib, 'w) node"
  assumes "node_within A n h" and "finite A" and "card A \<le> 246" and "name \<in> A"
    and "map_find (loadedLibraries n) file = Some lib" and "map_find (loadedLibraries n) file' = Some lib'"
    and "contract_library ops attached os name idx lib" and "contract_library ops attached os name idx lib'"
    and "fst idx = reg_space (registry_of h) name" and "refuses idx = None"
    and "host_ok ops attached refuses" and "monitorable ops refuses" and "read obj = Inr v"
  shows "\<exists>n' h' cm cm' p p'. initializePlugins contract_index_ops ops os [file, file'] n = (n', Inr ()) \<and>
    loadedLibraries n' = loadedLibraries n \<and> contractMonitors n' = contractMonitors n @ [cm, cm'] \<and>
    contractName cm = name \<and> contractName cm' = name \<and> spaceId cm = fst idx \<and> spaceId cm' = fst idx \<and>
    chainHandler n' = Some h' \<and> {(idx, p), (idx, p')} \<subseteq> set (attached (chain h')) \<and> p \<noteq> p' \<and>
    object_created (node_monitor_env read moved n') obj (monitor_heap n' p) out =
      (monitor_heap n' p, out @ [LogCreated name (table_label (tableNames_symbol os lib) (snd idx)) v], Inr ()) \<and>
    object_created (node_monitor_env read moved n') obj (monitor_heap n' p') out =
      (monitor_heap n' p', out @ [LogCreated name (table_label (tableNames_symbol os lib') (snd idx)) v], Inr ())"
proof -
  obtain f where f: "contractName_symbol os lib \<noteq> Some None" "plugin_name os lib = name"
    "registerContract_symbol os lib = Some f" "provides_table ops attached idx f" "\<And>c. snd (f c (fst idx)) = Inr True"
    using assms(7) unfolding contract_library_def by blast
  obtain f' where f': "contractName_symbol os lib' \<noteq> Some None" "plugin_name os lib' = name"
    "registerContract_symbol os lib' = Some f'" "provides_table ops attached idx f'" "\<And>c. snd (f' c (fst idx)) = Inr True"
    using assms(8) unfolding contract_library_def by blast
  have tables: "\<forall>t. tableNames_symbol os lib = Some t \<longrightarrow> unat (count_field t) = length (values_field t)"
    "\<forall>t. tableNames_symbol os lib' = Some t \<longrightarrow> unat (count_field t) = length (values_field t)"
    using assms(7,8) by (simp_all add: contract_library_def)
  obtain c where c: "f (chain h) (fst idx) = (c, Inr True)" using f(5) by (metis prod.collapse)
  obtain n1 h1 cm p where 1: "initializePlugin contract_index_ops ops os lib n = (n1, Inr True)"
    "node_within A n1 h1" "reg_space (registry_of h1) name = fst idx" "loadedLibraries n1 = loadedLibraries n"
    "contractMonitors n1 = contractMonitors n @ [cm]" "contractName cm = name" "spaceId cm = fst idx"
    "monitor_id cm = next_monitor n" "next_monitor n1 = Suc (next_monitor n)"
    "reports attached n1 (tableNames_symbol os lib) cm idx p"
    by (rule accepted_library_reports [OF assms(1-3) f(1,2) assms(4) f(3) c f(4) assms(10,9,11,12)])
  obtain c' where c': "f' (chain h1) (fst idx) = (c', Inr True)" using f'(5) by (metis prod.collapse)
  obtain n2 h2 cm' p' where 2: "initializePlugin contract_index_ops ops os lib' n1 = (n2, Inr True)"
    "node_within A n2 h2" "loadedLibraries n2 = loadedLibraries n1"
    "contractMonitors n2 = contractMonitors n1 @ [cm']" "contractName cm' = name" "spaceId cm' = fst idx"
    "monitors_kept attached n1 n2" "reports attached n2 (tableNames_symbol os lib') cm' idx p'"
    "p' \<notin> snd ` set (attached (chain h1))"
    by (rule accepted_library_reports [OF 1(2) assms(2,3) f'(1,2) assms(4) f'(3) c' f'(4) assms(10) 1(3) [symmetric] assms(11,12)])
  have r: "reports attached n2 (tableNames_symbol os lib) cm idx p"
    by (rule reports_kept [OF 1(10) 2(7)]) (simp add: 1(8,9))
  have "(idx, p) \<in> set (attached (chain h1))" using 1(2,10) by (auto simp: reports_def node_within_def)
  then have "snd (idx, p) \<in> snd ` set (attached (chain h1))" by (rule imageI)
  then have "p \<noteq> p'" using 2(9) by auto
  moreover have "chainHandler n2 = Some h2" using 2(2) by (simp add: node_within_def)
  moreover from this have "{(idx, p), (idx, p')} \<subseteq> set (attached (chain h2))"
    using r 2(8) by (simp add: reports_def)
  moreover have "initializePlugins contract_index_ops ops os [file, file'] n = (n2, Inr ())"
    using assms(5,6) 1(1,4) 2(1) by simp
  moreover have "object_created (node_monitor_env read moved n2) obj (monitor_heap n2 p) out =
      (monitor_heap n2 p, out @ [LogCreated name (table_label (tableNames_symbol os lib) (snd idx)) v], Inr ())"
    using reports_created [OF r tables(1), where read = read and obj = obj and v = v and moved = moved and out = out] assms(13) 1(6) by simp
  moreover have "object_created (node_monitor_env read moved n2) obj (monitor_heap n2 p') out =
      (monitor_heap n2 p', out @ [LogCreated name (table_label (tableNames_symbol os lib') (snd idx)) v], Inr ())"
    using reports_created [OF 2(8) tables(2), where read = read and obj = obj and v = v and moved = moved and out = out] assms(13) 2(5) by simp
  moreover have "loadedLibraries n2 = loadedLibraries n" "contractMonitors n2 = contractMonitors n @ [cm, cm']"
    using 1(4,5) 2(3,4) by simp_all
  ultimately show ?thesis using 1(6,7) 2(5,6) by blast
qed

text \<open>A concrete case: one file in both plugin directories, with a contract that makes one table.\<close>

definition copies_os :: "(sample_tables, path, nat) os" where
  "copies_os = sample_os\<lparr>contractName_symbol := (\<lambda>lib. None),
     registerContract_symbol := (\<lambda>lib. Some (\<lambda>c k. (c\<lparr>all_indexes := List.insert (k, 0) (all_indexes c)\<rparr>, Inr True)))\<rparr>"

abbreviation other_path :: path where
  "other_path \<equiv> Path [''lib'', ''node'', ''plugins'', ''voting.so'']"

definition copies_node :: "(sample_tables, contract_index, nat, path, nat) node" where
  "copies_node = sample_node\<lparr>loadedLibraries :=
     [(plugin_path ''voting.so'', plugin_path ''voting.so''), (other_path, other_path)]\<rparr>"

lemma copies_within: "node_within {''voting'', ''escrow'', ''voting.so''} copies_node sample_chain"
  using sample_index_ok
  by (simp add: node_within_def copies_node_def sample_node_def handler_ok_def sample_chain_def record_names_def sample_index_def)

lemma copies_library:
  assumes "filename lib = ''voting.so''"
  shows "contract_library calm_db_ops attached_monitors copies_os ''voting.so'' (12, 0) lib"
  using assms
  by (auto simp: contract_library_def copies_os_def plugin_name_def sample_os_def provides_table_def calm_db_ops_def
      sample_refuses_def)

lemma copies_space: "reg_space (registry_of sample_chain) ''voting.so'' = 12"
  by (simp add: reg_space_def reg_position_def registry_of_def sample_chain_def sample_index_def)

theorem shared_name_reported_twice_witness:
  "\<exists>n' h' cm cm' p p'. initializePlugins contract_index_ops calm_db_ops copies_os [plugin_path ''voting.so'', other_path] copies_node =
      (n', Inr ()) \<and>
    loadedLibraries n' = loadedLibraries copies_node \<and> contractMonitors n' = [cm, cm'] \<and>
    contractName cm = ''voting.so'' \<and> contractName cm' = ''voting.so'' \<and> spaceId cm = 12 \<and> spaceId cm' = 12 \<and>
    chainHandler n' = Some h' \<and> {((12, 0), p), ((12, 0), p')} \<subseteq> set (attached_monitors (chain h')) \<and> p \<noteq> p' \<and>
    object_created (node_monitor_env (\<lambda>x. Inr (Obj x)) (MutObj []) n') 5 (monitor_heap n' p) [] =
      (monitor_heap n' p, [LogCreated ''voting.so'' ''ballots'' (Obj 5)], Inr ()) \<and>
    object_created (node_monitor_env (\<lambda>x. Inr (Obj x)) (MutObj []) n') 5 (monitor_heap n' p') [] =
      (monitor_heap n' p', [LogCreated ''voting.so'' ''ballots'' (Obj 5)], Inr ())"
proof -
  let ?A = "{''voting'', ''escrow'', ''voting.so''}"
  have A: "finite ?A" "card ?A \<le> 246" "''voting.so'' \<in> ?A" by simp_all
  have libs: "map_find (loadedLibraries copies_node) (plugin_path ''voting.so'') = Some (plugin_path ''voting.so'')"
    "map_find (loadedLibraries copies_node) other_path = Some other_path"
    by (simp_all add: copies_node_def sample_node_def map_find_def plugin_path_def)
  have names: "filename (plugin_path ''voting.so'') = ''voting.so''" "filename other_path = ''voting.so''"
    by (simp_all add: filename_def plugin_path_def)
  have table: "fst (12, 0) = reg_space (registry_of sample_chain) ''voting.so''" "sample_refuses (12, 0) = None"
    by (simp_all add: copies_space sample_refuses_def)
  have "contractMonitors copies_node = []" by (simp add: copies_node_def sample_node_def)
  moreover have "table_label (tableNames_symbol copies_os lib) 0 = ''ballots''" for lib
    by (simp add: table_label_def copies_os_def sample_os_def)
  ultimately show ?thesis
    using shared_name_reported_twice [OF copies_within A libs copies_library [OF names(1)] copies_library [OF names(2)]
        table calm_db_ops_ok, where read = "\<lambda>x. Inr (Obj x)" and obj = 5 and v = "Obj 5" and moved = "MutObj []" and out = "[]"]
    by (simp only: fst_conv snd_conv append_Nil simp_thms)
qed

end
