(* ===== verification/Spec2Isabelle.thy ===== *)
theory Spec2Isabelle
  imports Variant_Move Api_Manager Reflect Example_Contract Sync_Protocol Shared_Name
begin

text \<open>
  A verification development for the Peerplays contract node: a program that follows a Graphene block
  chain over a peer-to-peer network, loads contracts from plugin libraries, gives each an object space
  in the chain database and reports what happens in its tables, and a template library, \<open>Infra\<close>, for
  compile-time lists, strings, variants and the description of a program's modules.

  The parts and the theories that model them:

  \<^item> \<open>Prelude\<close>: the errors of the program as values (\<open>cpp_error\<close>), results (\<open>'a res\<close>), loops with early
    exit, lemmas on machine words, and the locale \<open>kept_invariant\<close> for runs of a step function.
    An error value \<open>UB\<close> is a step whose behaviour the C++ standard leaves undefined.
  \<^item> \<open>Type_List\<close>: \<open>Infra/TypeList.hpp\<close>. A compile-time list is a HOL list, a metafunction a function by
    the recursion of its specializations, an instantiation that no specialization matches \<open>None\<close>;
    \<open>std::size_t\<close> is a 64-bit word, whose wrap-around decides what \<open>slice\<close> and \<open>removeAt\<close> reject. The
    lemmas identify each metafunction with a list function. The locale \<open>tag_table\<close> is the contract
    between \<open>indexOf\<close> and \<open>at\<close> that variants rest on.
  \<^item> \<open>String_T\<close>: \<open>Infra/StringT.hpp\<close> and the string part of \<open>Infra/Utilities.hpp\<close>: the \<open>StrT\<close> macro for
    every setting of \<open>USE_STRINGT\<close>, the splitting and the comparison of string types.
  \<^item> \<open>Static_Variant\<close>: \<open>Infra/StaticVariant.hpp\<close>. A variant is its tag, a 64-bit word, and the object
    that lives in its storage, if one does; constructors of member types may throw. \<open>Variant_Move\<close> adds the
    operations on rvalues and shows that any sequence of operations on a variant does what it does to
    a pair of a type and a value (\<open>variant_refines_tagged_value\<close>).
  \<^item> \<open>Api_Match\<close>: the query matching and the static allocator of \<open>Infra/ApiManager.hpp\<close>.
  \<^item> \<open>Module_Tree\<close>: the map-style lists of \<open>Infra/TypeList.hpp\<close>, \<open>Infra/Infra.hpp\<close>, \<open>Infra/Modular.hpp\<close> and
    the advertisement accumulator: lookup of a class's DMarc, the walk over the submodules, the typing
    of a path of getters. The locale \<open>collector\<close> is the contract between the walk and an accumulator;
    both accumulators of the source are interpretations. The compiler's limit on nested
    instantiations is the fuel of the walk; \<open>WalkModuleTree_terminates\<close> shows that a limit above the
    depth of the tree is enough and that raising it changes nothing.
  \<^item> \<open>Api_Manager\<close>: the types around the queries in \<open>Infra/ApiManager.hpp\<close>: what makes an API demarcation,
    the static checks of a query, and the static information of the class \<open>ApiManager\<close>, which shows that
    the class has no instance that compiles; the types of the results of an allocation, and when they
    have objects.
  \<^item> \<open>Reflect\<close>: \<open>Infra/Reflect.hpp\<close>. The macros are functions on a registry of specializations, and what
    they expand to is a chain of member templates looked up by name; an object has a value for every
    field of every base class part, so the accessors of inherited members can be stated and proved.
  \<^item> \<open>P2p_Handler\<close>: \<open>Modules/P2pHandler\<close>. The callbacks of the network node over the record \<open>chain_db\<close>
    of the queries that they make to the chain database, with block numbers as 32-bit words; the sync
    flag. The loop of \<open>get_blockchain_synopsis\<close> is a partial function, so a run that does not end is
    the value \<open>None\<close>; that it returns is part of the theorems on it, and
    \<open>get_blockchain_synopsis_overflow_diverges\<close> shows inputs on which it does not.
  \<^item> \<open>Std_Map\<close>: \<open>std::map\<close> as the list of its entries in key order, with the locale \<open>map_contract\<close>, and
    file system paths.
  \<^item> \<open>Chain_Handler\<close>: the class \<open>ChainHandler\<close>: contract records and object spaces, the registration of
    contracts, the genesis state and the opening of the chain. The locale \<open>record_store\<close> is what the
    handler needs of the persistence database; the declared index of contract records interprets it.
  \<^item> \<open>Contract_Registry\<close>: the abstract specification of the handler's registry, the record \<open>registry\<close> of
    names and loaded names, with \<open>registry_of\<close> as the map from the handler to it, the refinement, and what
    happens beyond its bound.
  \<^item> \<open>Table_Monitor\<close>: \<open>TableMonitor\<close>, a state machine driven by the database's callbacks, and
    \<open>MultiTableMonitor\<close>, which attaches one to every table of a space, with construction that may be
    left by an exception.
  \<^item> \<open>Plugin_Loader\<close>: finding, loading and initializing plugins in \<open>Modules/ContractNode\<close>, and the slots
    that report a contract's activity.
  \<^item> \<open>Database_Dump\<close>: the inspection of a contract's tables by the handler and the dump of all of them by
    the node. What a dump has logged survives an exception that ends it.
  \<^item> \<open>Contract_Node\<close>: the rest of \<open>Modules/ContractNode\<close>: \<open>run\<close>, the reception of blocks, signals and
    exit. A run of the node is a fold of \<open>node_step\<close> over events, and \<open>node_ok\<close> is the invariant that all of
    them keep.
  \<^item> \<open>Node_Lifetime\<close>: construction and destruction: the P2P handler's constructor and destructor, the
    chain handler's destructor, the destruction of the node's members in their order, \<open>main.cpp\<close>, and
    the contract records across runs of the program, clean or crashed.
  \<^item> \<open>Node_Startup\<close>: what startup and a later search make of directories of well-behaved libraries, end
    to end: from the files over registration to the monitors, and to the wait of \<open>run\<close>; and the contract
    whose space is taken.
  \<^item> \<open>Shared_Name\<close>: two libraries with contracts of one name, which share a record and a space and are both
    watched.
  \<^item> \<open>Example_Contract\<close>: \<open>ExampleContract/ExampleContract.hpp\<close>, and what the plugin loader makes of it.
  \<^item> \<open>Sync_Protocol\<close>: what the delegate's answers and the node's slot achieve together when nodes
    synchronise. The network between them is a parameter: any deliveries, or a trace of states with the
    deliveries of each round. A theorem that needs something of the network has it as a hypothesis on
    what is delivered, stated with \<open>offered\<close>, the blocks that the two modelled delegates come to.

  How they interact: the contract node owns a chain handler and a P2P handler. A block from the network
  enters through \<open>handle_block\<close>, whose world is the node, runs the node's slot \<open>receive_block\<close> and ends
  in the chain handler's database. A plugin found by \<open>searchForPlugins\<close> is registered by the handler's
  \<open>initializeContract\<close> and watched through \<open>observeContract\<close>; the table monitors' notifications end in
  the node's slots and in its log. \<open>StaticVariant\<close>, the module tree and the API queries build on the type
  lists and strings.

  What the properties show. For the network: the ids sent to a peer are the right consecutive ones, a
  synopsis is a good summary of the chain or of a fork, with the ids it consists of, a node behind a peer
  catches up with it in a network that delivers what the peer offers, one on a fork never leaves it, and
  the node follows one chain whatever arrives.
  For contracts: a contract keeps its object space, also across restarts, spaces are distinct up to a bound that is
  sharp, every table is watched and every change is reported once, or, when two libraries share a name,
  once for each of them. For the node: searches report
  what they load, startup ends in a valid node or with the right status and with every accepting contract
  watched, a repeated search changes nothing, the running node
  keeps its invariant and exits with the status of an event that asked for it, and its parts are destroyed in a
  known order. For \<open>Infra\<close>: the metafunctions compute what their
  list counterparts compute, variants are tagged values, queries select by prefix, walks list
  the tree, and reflections reach the fields that they name.

  Code that is not in the repository is an argument: Graphene's chain and object databases (\<open>chain_db\<close>,
  \<open>db_ops\<close>, \<open>db_reader\<close>, \<open>block_ops\<close>), the network node (\<open>p2p_peers\<close>, and the lists of blocks that it
  delivers), fc's promise (the argument \<open>promise\<close> of \<open>exit_status\<close>), JSON, hashing and the clock
  (\<open>genesis_env\<close>), the dynamic loader and the file system (\<open>os\<close>), the plugins' own functions, and the
  member types of a variant (\<open>value_ops\<close>). What a theorem needs of them is a named hypothesis, such as
  \<open>main_chain_ok\<close>, \<open>host_ok\<close>, \<open>push_ok\<close> or \<open>promise_ok\<close>, and the theorem's witness instantiates it. Log output is
  modelled where it is the purpose of the code (the reports on tables and the dump) and left out
  elsewhere.

  Not modelled: the member functions of the class \<open>ApiManager\<close>, which are declared without definitions;
  \<open>Infra/Environment.hpp\<close>, a class without
  operations; the builds without exceptions, which abort where the others throw; the alignment of a
  variant's storage, which lies behind the 8 bytes of the tag and so suits member types with an
  alignment of at most 8.
\<close>

end
